theory Spec2Isabelle
  imports Complex_Main "HOL-Library.Word"
begin


section \<open>JavaScript numbers\<close>

text \<open>
  A JavaScript number is a finite value, one of the two infinities, or NaN.  The finite
  values are modelled as reals, and every arithmetic operation rounds its exact result to
  binary64: to the nearest value with 53 significant bits, a tie going to the even
  significand, with gradual underflow (no quantum below \<open>pow2 (- 1074)\<close>) and with
  overflow to an infinity from \<open>pow2 1024\<close> on.  A store into a \<^verbatim>\<open>Float32Array\<close>
  rounds in the same way to binary32: 24 significant bits, no quantum below
  \<open>pow2 (- 149)\<close>, overflow from \<open>pow2 128\<close> on.  The two zeros are one value (a division
  by zero is a division by \<^verbatim>\<open>+0\<close>, the only zero the code below ever divides by:
  \<^verbatim>\<open>total - 1\<close> and \<^verbatim>\<open>Math.sqrt(...)\<close>).  No operation raises: \<^verbatim>\<open>0 / 0\<close>
  is NaN and \<^verbatim>\<open>x / 0\<close> is an infinity.
\<close>

datatype jsnum = NaN | NInf | Fin real | PInf

text \<open>
  \<open>pow2 e\<close> is the power of two with exponent \<open>e\<close>; \<open>binade x\<close> is the exponent \<open>k\<close>
  with \<open>pow2 k \<le> \<bar>x\<bar> < pow2 (k + 1)\<close>; \<open>round_half_even\<close> rounds a real to the nearest
  integer, a tie to the even one; \<open>round_real p qmin\<close> rounds to \<open>p\<close> significant bits
  with quanta of at least \<open>pow2 qmin\<close>, and \<open>js_round\<close> adds the overflow from
  \<open>pow2 emax\<close> on.
\<close>

definition pow2 :: "int \<Rightarrow> real" where
  "pow2 e = (if 0 \<le> e then 2 ^ nat e else 1 / 2 ^ nat (- e))"

definition binade :: "real \<Rightarrow> int" where
  "binade x = \<lfloor>log 2 \<bar>x\<bar>\<rfloor>"

definition round_half_even :: "real \<Rightarrow> int" where
  "round_half_even y =
     (let f = \<lfloor>y\<rfloor>; d = y - of_int f
      in if d < 1 / 2 then f else if 1 / 2 < d then f + 1 else if even f then f else f + 1)"

definition round_real :: "nat \<Rightarrow> int \<Rightarrow> real \<Rightarrow> real" where
  "round_real p qmin x =
     (if x = 0 then 0
      else (let q = pow2 (max (binade x - (int p - 1)) qmin)
            in of_int (round_half_even (x / q)) * q))"

definition js_round :: "nat \<Rightarrow> int \<Rightarrow> int \<Rightarrow> real \<Rightarrow> jsnum" where
  "js_round p qmin emax x =
     (let y = round_real p qmin x
      in if pow2 emax \<le> \<bar>y\<bar> then (if 0 < x then PInf else NInf) else Fin y)"

text \<open>Rounding to binary64 and to binary32; \<open>f32\<close> is the store into a \<^verbatim>\<open>Float32Array\<close>.\<close>

definition fround64 :: "real \<Rightarrow> jsnum" where
  "fround64 x = js_round 53 (- 1074) 1024 x"

definition fround32 :: "real \<Rightarrow> jsnum" where
  "fround32 x = js_round 24 (- 149) 128 x"

fun f32 :: "jsnum \<Rightarrow> jsnum" where
  "f32 (Fin x) = fround32 x"
| "f32 v = v"

fun js_neg :: "jsnum \<Rightarrow> jsnum" where
  "js_neg NaN = NaN"
| "js_neg NInf = PInf"
| "js_neg PInf = NInf"
| "js_neg (Fin a) = Fin (- a)"

fun js_add :: "jsnum \<Rightarrow> jsnum \<Rightarrow> jsnum" where
  "js_add NaN _ = NaN"
| "js_add _ NaN = NaN"
| "js_add PInf NInf = NaN"
| "js_add NInf PInf = NaN"
| "js_add PInf _ = PInf"
| "js_add _ PInf = PInf"
| "js_add NInf _ = NInf"
| "js_add _ NInf = NInf"
| "js_add (Fin a) (Fin b) = fround64 (a + b)"

definition js_sub :: "jsnum \<Rightarrow> jsnum \<Rightarrow> jsnum" where
  "js_sub a b = js_add a (js_neg b)"

text \<open>The sign of a number: \<open>None\<close> for NaN, otherwise \<open>-1\<close>, \<open>0\<close> or \<open>1\<close>.\<close>

fun js_sign :: "jsnum \<Rightarrow> int option" where
  "js_sign NaN = None"
| "js_sign NInf = Some (- 1)"
| "js_sign PInf = Some 1"
| "js_sign (Fin a) = Some (if a < 0 then - 1 else if a = 0 then 0 else 1)"

definition js_inf :: "int \<Rightarrow> jsnum" where
  "js_inf s = (if s = 0 then NaN else if s < 0 then NInf else PInf)"

fun js_mul :: "jsnum \<Rightarrow> jsnum \<Rightarrow> jsnum" where
  "js_mul (Fin a) (Fin b) = fround64 (a * b)"
| "js_mul a b =
     (case (js_sign a, js_sign b) of
        (Some s, Some t) \<Rightarrow> js_inf (s * t)
      | _ \<Rightarrow> NaN)"

fun js_div :: "jsnum \<Rightarrow> jsnum \<Rightarrow> jsnum" where
  "js_div NaN _ = NaN"
| "js_div _ NaN = NaN"
| "js_div (Fin a) (Fin b) =
     (if b = 0 then (if a = 0 then NaN else if a < 0 then NInf else PInf)
      else fround64 (a / b))"
| "js_div (Fin a) _ = Fin 0"
| "js_div a (Fin b) =
     (case js_sign a of
        Some s \<Rightarrow> js_inf (if b < 0 then - s else s)
      | None \<Rightarrow> NaN)"
| "js_div _ _ = NaN"

fun js_sqrt :: "jsnum \<Rightarrow> jsnum" where
  "js_sqrt NaN = NaN"
| "js_sqrt NInf = NaN"
| "js_sqrt PInf = PInf"
| "js_sqrt (Fin a) = (if a < 0 then NaN else fround64 (sqrt a))"

text \<open>\<^verbatim>\<open>a > b\<close> and \<^verbatim>\<open>a <= b\<close>: false as soon as one side is NaN.\<close>

fun js_gt :: "jsnum \<Rightarrow> jsnum \<Rightarrow> bool" where
  "js_gt NaN _ = False"
| "js_gt _ NaN = False"
| "js_gt (Fin a) (Fin b) = (a > b)"
| "js_gt PInf PInf = False"
| "js_gt PInf _ = True"
| "js_gt NInf _ = False"
| "js_gt (Fin a) NInf = True"
| "js_gt (Fin a) PInf = False"

definition js_le :: "jsnum \<Rightarrow> jsnum \<Rightarrow> bool" where
  "js_le a b = (a \<noteq> NaN \<and> b \<noteq> NaN \<and> \<not> js_gt a b)"

text \<open>
  An array length or a loop counter as a number: the length of a JavaScript array is below
  \<open>2 ^ 32\<close>, so it is a binary64 value and no rounding occurs.
\<close>

definition js_of_nat :: "nat \<Rightarrow> jsnum" where
  "js_of_nat n = Fin (real n)"

section \<open>The rope mesh (RopeGeometry.js)\<close>

datatype js_error = TypeError

datatype point = Point (point_x: jsnum) (point_y: jsnum)

text \<open>
  Of a texture the rope reads \<^verbatim>\<open>_uvs\<close> (absent until the texture is ready) and
  \<^verbatim>\<open>height\<close>.
\<close>

record texture =
  tex_uvs :: "jsnum list option"
  tex_height :: jsnum

text \<open>
  Modelled from the spec: the buffer store, the renderer and the base mesh
  (\<^verbatim>\<open>Mesh2d\<close>, \<^verbatim>\<open>Geometry\<close>, \<^verbatim>\<open>Buffer\<close>) are not among the sources.  Following
  sections 3, 4.2 and 6 of the specification, the geometry holds three buffers (vertex
  positions and UVs as \<^verbatim>\<open>Float32Array\<close>, indices as \<^verbatim>\<open>Uint16Array\<close>);
  \<^verbatim>\<open>this.vertices\<close> and \<^verbatim>\<open>geometry.buffers[0]\<close> are the vertex buffer; a call of
  \<^verbatim>\<open>update()\<close> on a buffer is the buffer-update signal to the renderer, recorded
  here with the data the buffer holds at that moment; \<^verbatim>\<open>multiplyUvs()\<close> applies a
  texture-specific multiplier to every UV sample of the UV buffer in place, the multiplier
  being a parameter \<open>mul\<close> of the model; \<^verbatim>\<open>containerUpdateTransform()\<close> is the
  generic transform update of the container and touches no buffer; \<^verbatim>\<open>refresh()\<close>
  performs the structural refresh \<^verbatim>\<open>_refresh()\<close>.  Calls to these collaborators are
  recorded, oldest first, in the field \<open>events\<close>.
\<close>

datatype event =
    UpdateVertex "jsnum list"
  | UpdateUv "jsnum list"
  | UpdateIndex "16 word list"
  | MultiplyUvs
  | ContainerUpdateTransform

text \<open>
  \<open>points\<close> is \<open>None\<close> while \<^verbatim>\<open>this.points\<close> is not assigned.  A store into a typed
  array outside its bounds is ignored, which is what \<open>xs[i := v]\<close> does; a store into the
  vertex or the UV buffer rounds the value to binary32 (\<open>f32\<close>), a store into the index
  buffer keeps the value modulo \<open>2 ^ 16\<close>.
\<close>

record rope =
  texture :: texture
  points :: "point list option"
  vertexBuffer :: "jsnum list"
  uvBuffer :: "jsnum list"
  indexBuffer :: "16 word list"
  autoUpdate :: bool
  events :: "event list"

type_synonym uv_multiplier = "texture \<Rightarrow> jsnum \<times> jsnum \<Rightarrow> jsnum \<times> jsnum"

fun mapUvs :: "(jsnum \<times> jsnum \<Rightarrow> jsnum \<times> jsnum) \<Rightarrow> jsnum list \<Rightarrow> jsnum list" where
  "mapUvs f (u # v # rest) = f32 (fst (f (u, v))) # f32 (snd (f (u, v))) # mapUvs f rest"
| "mapUvs f rest = rest"

definition multiplyUvs :: "uv_multiplier \<Rightarrow> rope \<Rightarrow> rope" where
  "multiplyUvs mul r =
     r\<lparr>uvBuffer := mapUvs (mul (texture r)) (uvBuffer r),
       events := events r @ [MultiplyUvs]\<rparr>"

text \<open>
  Lines 142 to 147 of \<^verbatim>\<open>refreshVertices\<close>: the taper ratio, computed for every point
  and used by nothing.
\<close>

definition taperRatio :: "nat \<Rightarrow> nat \<Rightarrow> jsnum" where
  "taperRatio i ntotal =
     (let ratio = js_mul (js_sub (Fin 1)
                    (js_div (js_of_nat i) (js_sub (js_of_nat ntotal) (Fin 1)))) (Fin 10)
      in if js_gt ratio (Fin 1) then Fin 1 else ratio)"

text \<open>The loop of \<^verbatim>\<open>refreshVertices\<close>, lines 125 to 164.\<close>

function verticesLoop :: "point list \<Rightarrow> jsnum \<Rightarrow> nat \<Rightarrow> point \<Rightarrow> jsnum list \<Rightarrow> jsnum list" where
  "verticesLoop ps height i lastPoint vertices =
     (if i < length ps then
        (let point = ps ! i;
             index = i * 4;
             nextPoint = (if int i < int (length ps) - 1 then ps ! (i + 1) else point);
             perpY = js_neg (js_sub (point_x nextPoint) (point_x lastPoint));
             perpX = js_sub (point_y nextPoint) (point_y lastPoint);
             ratio = taperRatio i (length ps);
             perpLength = js_sqrt (js_add (js_mul perpX perpX) (js_mul perpY perpY));
             num = js_div height (Fin 2);
             perpX = js_mul (js_div perpX perpLength) num;
             perpY = js_mul (js_div perpY perpLength) num
         in verticesLoop ps height (i + 1) point
              (vertices[index := f32 (js_add (point_x point) perpX),
                        index + 1 := f32 (js_add (point_y point) perpY),
                        index + 2 := f32 (js_sub (point_x point) perpX),
                        index + 3 := f32 (js_sub (point_y point) perpY)]))
      else vertices)"
  by pat_completeness auto
termination
  by (relation "measure (\<lambda>(ps, height, i, lastPoint, vertices). length ps - i)") auto

definition refreshVertices :: "rope \<Rightarrow> js_error + rope" where
  "refreshVertices r =
     (case points r of
        None \<Rightarrow> Inl TypeError
      | Some ps \<Rightarrow>
          if length ps < 1 then Inr r
          else
            (let vertices = verticesLoop ps (tex_height (texture r)) 0 (ps ! 0) (vertexBuffer r)
             in Inr (r\<lparr>vertexBuffer := vertices,
                       events := events r @ [UpdateVertex vertices]\<rparr>)))"

text \<open>The loop of \<^verbatim>\<open>_refresh\<close>, lines 78 to 93.\<close>

function refreshLoop :: "nat \<Rightarrow> nat \<Rightarrow> jsnum list \<Rightarrow> 16 word list \<Rightarrow> jsnum list \<times> 16 word list" where
  "refreshLoop i ntotal uvs indices =
     (if i < ntotal then
        (let index = i * 4;
             amount = js_div (js_of_nat i) (js_sub (js_of_nat ntotal) (Fin 1));
             uvs = uvs[index := f32 amount, index + 1 := f32 (Fin 0),
                       index + 2 := f32 amount, index + 3 := f32 (Fin 1)];
             index = i * 2;
             indices = indices[index := of_nat index, index + 1 := of_nat (index + 1)]
         in refreshLoop (i + 1) ntotal uvs indices)
      else (uvs, indices))"
  by pat_completeness auto
termination
  by (relation "measure (\<lambda>(i, ntotal, uvs, indices). ntotal - i)") auto

text \<open>\<^verbatim>\<open>Rope._refresh\<close>, the full (structural) refresh.\<close>

definition rope_refresh :: "uv_multiplier \<Rightarrow> rope \<Rightarrow> js_error + rope" where
  "rope_refresh mul r =
     (case points r of
        None \<Rightarrow> Inr r
      | Some ps \<Rightarrow>
          if length ps < 1 \<or> tex_uvs (texture r) = None then Inr r
          else
            (let r = (if real (length (vertexBuffer r)) / 4 \<noteq> real (length ps)
                      then r\<lparr>vertexBuffer := replicate (length ps * 4) (Fin 0),
                             uvBuffer := replicate (length ps * 4) (Fin 0),
                             indexBuffer := replicate (length ps * 2) 0\<rparr>
                      else r);
                 uvs = (uvBuffer r)[0 := f32 (Fin 0), 1 := f32 (Fin 0), 2 := f32 (Fin 0),
                                    3 := f32 (Fin 1)];
                 indices = (indexBuffer r)[0 := 0, 1 := 1];
                 (uvs, indices) = refreshLoop 1 (length ps) uvs indices;
                 r = r\<lparr>uvBuffer := uvs, indexBuffer := indices\<rparr>;
                 r = r\<lparr>events := events r @ [UpdateUv uvs]\<rparr>;
                 r = r\<lparr>events := events r @ [UpdateIndex indices]\<rparr>
             in refreshVertices (multiplyUvs mul r)))"

text \<open>
  Modelled from the spec: \<^verbatim>\<open>Mesh2d.refresh\<close> is not among the sources; by section
  4.2 the constructor "performs one full structural refresh synchronously".
\<close>

definition mesh_refresh :: "uv_multiplier \<Rightarrow> rope \<Rightarrow> js_error + rope" where
  "mesh_refresh mul r = rope_refresh mul r"

text \<open>
  The constructor.  The initial value of \<^verbatim>\<open>autoUpdate\<close> is set by the base class
  and is a parameter here.
\<close>

definition construct :: "uv_multiplier \<Rightarrow> bool \<Rightarrow> texture \<Rightarrow> point list \<Rightarrow> js_error + rope" where
  "construct mul au tex ps =
     mesh_refresh mul
       \<lparr>texture = tex, points = Some ps,
        vertexBuffer = replicate (length ps * 4) (Fin 0),
        uvBuffer = replicate (length ps * 4) (Fin 0),
        indexBuffer = replicate (length ps * 2) 0,
        autoUpdate = au, events = []\<rparr>"

text \<open>\<^verbatim>\<open>Rope.updateTransform\<close>, the per-frame hook.\<close>

definition updateTransform :: "rope \<Rightarrow> js_error + rope" where
  "updateTransform r =
     (case (if autoUpdate r then refreshVertices r else Inr r) of
        Inl e \<Rightarrow> Inl e
      | Inr r' \<Rightarrow> Inr (r'\<lparr>events := events r' @ [ContainerUpdateTransform]\<rparr>))"

section \<open>The JSON loader (sprite sheets)\<close>

text \<open>
  Modelled from the spec: \<^verbatim>\<open>core.math.Rectangle\<close>, \<^verbatim>\<open>core.Texture\<close>,
  \<^verbatim>\<open>core.utils.TextureCache\<close> and \<^verbatim>\<open>ImageLoader\<close> are not among the sources.
  By sections 3 and 6 of the specification a rectangle and a texture region are plain data
  (a region is a base image with a source rectangle, a crop rectangle and an optional trim
  rectangle) and the cache maps frame names to regions.  The base texture of the image
  loader is identified by the URL of its image; \<^verbatim>\<open>clone()\<close> of a rectangle yields an
  equal rectangle.
\<close>

datatype rectangle =
  Rectangle (rect_x: jsnum) (rect_y: jsnum) (rect_width: jsnum) (rect_height: jsnum)

datatype core_texture =
  CoreTexture (baseTexture: string) (tex_frame: rectangle) (tex_crop: rectangle)
    (tex_trim: "rectangle option")

text \<open>
  The parsed JSON of a sprite sheet.  A frame entry has the fields the loader reads:
  \<^verbatim>\<open>frame\<close>, \<^verbatim>\<open>trimmed\<close>, \<^verbatim>\<open>sourceSize\<close>, \<^verbatim>\<open>spriteSourceSize\<close>; a field that
  is absent is \<open>None\<close>.  The object \<^verbatim>\<open>frames\<close> is a list of entries in the order of
  \<^verbatim>\<open>for (var i in frameData)\<close>; \<open>meta_image\<close> is \<^verbatim>\<open>json.meta.image\<close>, \<open>None\<close> when
  \<^verbatim>\<open>json.meta\<close> is absent.
\<close>

datatype json_rect = JsonRect (json_x: jsnum) (json_y: jsnum) (json_w: jsnum) (json_h: jsnum)

datatype json_size = JsonSize (size_w: jsnum) (size_h: jsnum)

record frame_data =
  frame :: "json_rect option"
  trimmed :: bool
  sourceSize :: "json_size option"
  spriteSourceSize :: "json_rect option"

type_synonym texture_cache = "string \<rightharpoonup> core_texture"

text \<open>
  The loop of lines 137 to 156.  Reading \<^verbatim>\<open>realSize.x\<close> or \<^verbatim>\<open>actualSize.w\<close> of an
  absent field raises a TypeError, which ends the loop; the textures stored before stay in
  the cache.
\<close>

fun frameLoop :: "string \<Rightarrow> (string \<times> frame_data) list \<Rightarrow> texture_cache \<Rightarrow> js_error option \<times> texture_cache" where
  "frameLoop base [] cache = (None, cache)"
| "frameLoop base ((i, fd) # rest) cache =
     (case frame fd of
        None \<Rightarrow> frameLoop base rest cache
      | Some rect \<Rightarrow>
          (let textureSize = Rectangle (json_x rect) (json_y rect) (json_w rect) (json_h rect);
               crop = textureSize
           in if trimmed fd then
                (case sourceSize fd of
                   None \<Rightarrow> (Some TypeError, cache)
                 | Some actualSize \<Rightarrow>
                     (case spriteSourceSize fd of
                        None \<Rightarrow> (Some TypeError, cache)
                      | Some realSize \<Rightarrow>
                          frameLoop base rest
                            (cache(i \<mapsto> CoreTexture base textureSize crop
                               (Some (Rectangle (json_x realSize) (json_y realSize)
                                  (size_w actualSize) (size_h actualSize)))))))
              else frameLoop base rest (cache(i \<mapsto> CoreTexture base textureSize crop None))))"

record json_data =
  frames :: "(string \<times> frame_data) list option"
  meta_image :: "string option"
  bones :: bool

text \<open>
  What the loader does to its collaborators: the events it dispatches, the image load it
  starts, and the load of the atlas file that the skeleton branch starts.  The loader of the
  atlas is a second \<^verbatim>\<open>JsonLoader\<close>; what it does once its own request completes
  (lines 180 to 216) is not developed.
\<close>

datatype loader_event = DispatchLoaded | DispatchError | ImageLoad string | AtlasLoad string

record json_loader =
  url :: string
  baseUrl :: string
  loaded :: bool
  loader_texture :: "string option"
  loader_events :: "loader_event list"

definition onLoaded :: "json_loader \<Rightarrow> json_loader" where
  "onLoaded ld = ld\<lparr>loaded := True, loader_events := loader_events ld @ [DispatchLoaded]\<rparr>"

definition onError :: "json_loader \<Rightarrow> json_loader" where
  "onError ld = ld\<lparr>loader_events := loader_events ld @ [DispatchError]\<rparr>"

text \<open>
  \<^verbatim>\<open>s.lastIndexOf(c)\<close> is the index of the last occurrence of \<^verbatim>\<open>c\<close> in
  \<^verbatim>\<open>s\<close>, or \<open>-1\<close>; \<^verbatim>\<open>s.substr(0, n)\<close> is the first \<open>n\<close> characters of
  \<^verbatim>\<open>s\<close>, none when \<open>n\<close> is negative.  \<open>atlasPath\<close> is line 175.
\<close>

fun lastIndexOf :: "char \<Rightarrow> string \<Rightarrow> int" where
  "lastIndexOf c [] = - 1"
| "lastIndexOf c (x # xs) =
     (let k = lastIndexOf c xs in if 0 \<le> k then k + 1 else if x = c then 0 else - 1)"

definition substr0 :: "string \<Rightarrow> int \<Rightarrow> string" where
  "substr0 s n = take (nat n) s"

definition atlasPath :: "string \<Rightarrow> string" where
  "atlasPath u = substr0 u (lastIndexOf CHR ''.'' u) @ ''.atlas''"

text \<open>
  \<^verbatim>\<open>JsonLoader.onJSONLoaded\<close>.  The response is \<open>None\<close> when \<^verbatim>\<open>responseText\<close> is
  empty, otherwise the parsed JSON.  Of \<^verbatim>\<open>core.utils.AnimCache\<close> the loader reads
  whether it holds a skeleton under a URL.
\<close>

type_synonym anim_cache = "string \<Rightarrow> bool"

definition onJSONLoaded :: "json_loader \<Rightarrow> json_data option \<Rightarrow> texture_cache \<Rightarrow> anim_cache \<Rightarrow> js_error option \<times> json_loader \<times> texture_cache" where
  "onJSONLoaded ld response cache animCache =
     (case response of
        None \<Rightarrow> (None, onError ld, cache)
      | Some json \<Rightarrow>
          (case frames json of
             Some frameData \<Rightarrow>
               (case meta_image json of
                  None \<Rightarrow> (Some TypeError, ld, cache)
                | Some img \<Rightarrow>
                    (let textureUrl = baseUrl ld @ img;
                         ld = ld\<lparr>loader_texture := Some textureUrl\<rparr>;
                         (err, cache) = frameLoop textureUrl frameData cache
                     in case err of
                          Some e \<Rightarrow> (Some e, ld, cache)
                        | None \<Rightarrow>
                            (None, ld\<lparr>loader_events := loader_events ld @ [ImageLoad textureUrl]\<rparr>,
                             cache)))
           | None \<Rightarrow>
               if bones json then
                 (if animCache (url ld) then (None, onLoaded ld, cache)
                  else (None,
                        ld\<lparr>loader_events := loader_events ld @ [AtlasLoad (atlasPath (url ld))]\<rparr>,
                        cache))
               else (None, onLoaded ld, cache)))"

section \<open>Closed forms\<close>

text \<open>
  The definitions of this section are not code of the repository: they name the values the
  loops compute, so that the lemmas below can say what the loops leave in each slot.
  \<open>lastPointAt\<close> and \<open>nextPointAt\<close> are the values of \<^verbatim>\<open>lastPoint\<close> and
  \<^verbatim>\<open>nextPoint\<close> in iteration \<open>j\<close> of \<^verbatim>\<open>refreshVertices\<close>; \<open>perpLengthOf\<close> is
  \<^verbatim>\<open>perpLength\<close> of line 149; \<open>perpOf\<close> is the perpendicular after lines 139 to 156;
  \<open>vertexQuad\<close> holds the four values of lines 158 to 161 and \<open>uvQuad\<close> the four values of
  lines 84 to 88; \<open>uvAmount\<close> is \<^verbatim>\<open>amount\<close> of line 81, and \<open>uvParam\<close> is the real
  number that the UV buffer holds for it when there are at least two points: the quotient
  \<open>i / (n - 1)\<close> rounded to binary64 by the division and to binary32 by the store.  \<open>consistent\<close> is the invariant of the three buffers: the UV buffer is as
  long as the vertex buffer, the index buffer half as long.
\<close>

definition nextPointAt :: "point list \<Rightarrow> nat \<Rightarrow> point" where
  "nextPointAt ps j = (if int j < int (length ps) - 1 then ps ! (j + 1) else ps ! j)"

definition lastPointAt :: "point list \<Rightarrow> nat \<Rightarrow> point" where
  "lastPointAt ps j = (if j = 0 then ps ! 0 else ps ! (j - 1))"

definition perpLengthOf :: "point \<Rightarrow> point \<Rightarrow> jsnum" where
  "perpLengthOf lastPoint nextPoint =
     (let perpY = js_neg (js_sub (point_x nextPoint) (point_x lastPoint));
          perpX = js_sub (point_y nextPoint) (point_y lastPoint)
      in js_sqrt (js_add (js_mul perpX perpX) (js_mul perpY perpY)))"

definition perpOf :: "jsnum \<Rightarrow> point \<Rightarrow> point \<Rightarrow> jsnum \<times> jsnum" where
  "perpOf height lastPoint nextPoint =
     (let perpY = js_neg (js_sub (point_x nextPoint) (point_x lastPoint));
          perpX = js_sub (point_y nextPoint) (point_y lastPoint);
          perpLength = perpLengthOf lastPoint nextPoint;
          num = js_div height (Fin 2)
      in (js_mul (js_div perpX perpLength) num, js_mul (js_div perpY perpLength) num))"

definition vertexQuad :: "jsnum \<Rightarrow> point \<Rightarrow> point \<Rightarrow> point \<Rightarrow> jsnum list" where
  "vertexQuad height lastPoint point nextPoint =
     (let (perpX, perpY) = perpOf height lastPoint nextPoint
      in [f32 (js_add (point_x point) perpX), f32 (js_add (point_y point) perpY),
          f32 (js_sub (point_x point) perpX), f32 (js_sub (point_y point) perpY)])"

definition writeQuad :: "'a list \<Rightarrow> nat \<Rightarrow> 'a list \<Rightarrow> 'a list" where
  "writeQuad xs i q = xs[i * 4 := q ! 0, i * 4 + 1 := q ! 1, i * 4 + 2 := q ! 2, i * 4 + 3 := q ! 3]"

definition writePair :: "'a list \<Rightarrow> nat \<Rightarrow> 'a \<Rightarrow> 'a \<Rightarrow> 'a list" where
  "writePair xs i a b = xs[i * 2 := a, i * 2 + 1 := b]"

definition uvAmount :: "nat \<Rightarrow> nat \<Rightarrow> jsnum" where
  "uvAmount n i = js_div (js_of_nat i) (js_sub (js_of_nat n) (Fin 1))"

definition uvParam :: "nat \<Rightarrow> nat \<Rightarrow> real" where
  "uvParam n i = round_real 24 (- 149) (round_real 53 (- 1074) (real i / (real n - 1)))"

definition uvQuad :: "nat \<Rightarrow> nat \<Rightarrow> jsnum list" where
  "uvQuad n i = [f32 (uvAmount n i), Fin 0, f32 (uvAmount n i), Fin 1]"

definition ropeUvs :: "nat \<Rightarrow> jsnum list" where
  "ropeUvs n =
     concat (map (\<lambda>i. if i = 0 then [Fin 0, Fin 0, Fin 0, Fin 1] else uvQuad n i) [0..<n])"

definition ropeIndices :: "nat \<Rightarrow> 16 word list" where
  "ropeIndices n = map of_nat [0..<n * 2]"

definition ropeVertices :: "point list \<Rightarrow> jsnum \<Rightarrow> jsnum list" where
  "ropeVertices ps height =
     concat (map (\<lambda>i. vertexQuad height (lastPointAt ps i) (ps ! i) (nextPointAt ps i))
       [0..<length ps])"

definition consistent :: "rope \<Rightarrow> bool" where
  "consistent r =
     (length (uvBuffer r) = length (vertexBuffer r) \<and>
      length (indexBuffer r) * 2 = length (vertexBuffer r))"

text \<open>
  The texture region of one frame entry, in the words of the specification: the frame
  rectangle as source and crop rectangle and, for a trimmed entry, a trim rectangle made of
  the offset of \<^verbatim>\<open>spriteSourceSize\<close> and the dimensions of \<^verbatim>\<open>sourceSize\<close>.
  \<open>cacheStep\<close> stores it under the entry's name.  An entry is well formed when, being
  trimmed and having a frame, it has both sizes; \<open>processed\<close> is the part of the frame list
  before the first entry that is not well formed (the whole list when there is none).
\<close>

definition frameTexture :: "string \<Rightarrow> frame_data \<Rightarrow> core_texture option" where
  "frameTexture base fd =
     (case frame fd of
        None \<Rightarrow> None
      | Some rect \<Rightarrow>
          (let r = Rectangle (json_x rect) (json_y rect) (json_w rect) (json_h rect)
           in if trimmed fd then
                (case (spriteSourceSize fd, sourceSize fd) of
                   (Some realSize, Some actualSize) \<Rightarrow>
                     Some (CoreTexture base r r
                       (Some (Rectangle (json_x realSize) (json_y realSize)
                          (size_w actualSize) (size_h actualSize))))
                 | _ \<Rightarrow> None)
              else Some (CoreTexture base r r None)))"

definition cacheStep :: "string \<Rightarrow> string \<times> frame_data \<Rightarrow> texture_cache \<Rightarrow> texture_cache" where
  "cacheStep base e c = (case frameTexture base (snd e) of None \<Rightarrow> c | Some t \<Rightarrow> c(fst e \<mapsto> t))"

definition wellFormed :: "frame_data \<Rightarrow> bool" where
  "wellFormed fd =
     (if frame fd \<noteq> None \<and> trimmed fd
      then sourceSize fd \<noteq> None \<and> spriteSourceSize fd \<noteq> None else True)"

definition processed :: "(string \<times> frame_data) list \<Rightarrow> (string \<times> frame_data) list" where
  "processed fds = takeWhile (\<lambda>e. wellFormed (snd e)) fds"

section \<open>Concrete inputs\<close>

text \<open>The multiplier of a texture that covers its whole base image: every sample is kept.\<close>

definition idMul :: uv_multiplier where
  "idMul t p = p"

text \<open>A ready texture of logical height 10, and the three points of the scenario.\<close>

definition texReady :: texture where
  "texReady = \<lparr>tex_uvs = Some [Fin 0, Fin 0, Fin 1, Fin 0, Fin 1, Fin 1, Fin 0, Fin 1],
                tex_height = Fin 10\<rparr>"

definition points3 :: "point list" where
  "points3 = [Point (Fin 0) (Fin 0), Point (Fin 10) (Fin 0), Point (Fin 20) (Fin 0)]"

text \<open>
  A rope whose texture is not ready, with buffers of an earlier size; and the rope that the
  constructor builds from the single point \<open>(0, 0)\<close> and the ready texture.
\<close>

definition ropeStale :: rope where
  "ropeStale =
     \<lparr>texture = \<lparr>tex_uvs = None, tex_height = Fin 10\<rparr>,
      points = Some [Point (Fin 0) (Fin 0), Point (Fin 10) (Fin 0)],
      vertexBuffer = [Fin 1, Fin 2, Fin 3, Fin 4],
      uvBuffer = [Fin 0, Fin 0, Fin 0, Fin 1],
      indexBuffer = [0, 1],
      autoUpdate = True,
      events = []\<rparr>"

definition ropeOne :: rope where
  "ropeOne =
     \<lparr>texture = texReady, points = Some [Point (Fin 0) (Fin 0)],
      vertexBuffer = [NaN, NaN, NaN, NaN],
      uvBuffer = [Fin 0, Fin 0, Fin 0, Fin 1],
      indexBuffer = [0, 1],
      autoUpdate = True,
      events = [UpdateUv [Fin 0, Fin 0, Fin 0, Fin 1], UpdateIndex [0, 1], MultiplyUvs,
                UpdateVertex [NaN, NaN, NaN, NaN]]\<rparr>"

text \<open>
  The rope that the constructor builds from the three points and the ready texture.
\<close>

definition rope3 :: rope where
  "rope3 =
     \<lparr>texture = texReady, points = Some points3,
      vertexBuffer = [Fin 0, Fin (- 5), Fin 0, Fin 5, Fin 10, Fin (- 5), Fin 10, Fin 5,
                      Fin 20, Fin (- 5), Fin 20, Fin 5],
      uvBuffer = [Fin 0, Fin 0, Fin 0, Fin 1, Fin (1 / 2), Fin 0, Fin (1 / 2), Fin 1,
                  Fin 1, Fin 0, Fin 1, Fin 1],
      indexBuffer = [0, 1, 2, 3, 4, 5],
      autoUpdate = True,
      events =
        [UpdateUv [Fin 0, Fin 0, Fin 0, Fin 1, Fin (1 / 2), Fin 0, Fin (1 / 2), Fin 1,
                   Fin 1, Fin 0, Fin 1, Fin 1],
         UpdateIndex [0, 1, 2, 3, 4, 5],
         MultiplyUvs,
         UpdateVertex [Fin 0, Fin (- 5), Fin 0, Fin 5, Fin 10, Fin (- 5), Fin 10, Fin 5,
                       Fin 20, Fin (- 5), Fin 20, Fin 5]]\<rparr>"

text \<open>
  A multiplier that halves every UV sample (a texture covering a quarter of its base
  image), two points, and the rope that the constructor builds from them with this
  multiplier.
\<close>

definition halfMul :: uv_multiplier where
  "halfMul t p = (js_div (fst p) (Fin 2), js_div (snd p) (Fin 2))"

definition points2 :: "point list" where
  "points2 = [Point (Fin 0) (Fin 0), Point (Fin 10) (Fin 0)]"

definition ropeHalf :: rope where
  "ropeHalf =
     \<lparr>texture = texReady, points = Some points2,
      vertexBuffer = [Fin 0, Fin (- 5), Fin 0, Fin 5, Fin 10, Fin (- 5), Fin 10, Fin 5],
      uvBuffer = [Fin 0, Fin 0, Fin 0, Fin (1 / 2), Fin (1 / 2), Fin 0, Fin (1 / 2), Fin (1 / 2)],
      indexBuffer = [0, 1, 2, 3],
      autoUpdate = True,
      events =
        [UpdateUv [Fin 0, Fin 0, Fin 0, Fin 1, Fin 1, Fin 0, Fin 1, Fin 1],
         UpdateIndex [0, 1, 2, 3],
         MultiplyUvs,
         UpdateVertex [Fin 0, Fin (- 5), Fin 0, Fin 5, Fin 10, Fin (- 5), Fin 10, Fin 5]]\<rparr>"

text \<open>
  Four points, and the rope that the constructor builds from them and the ready texture.
  The UV parameters of the two inner points are the binary32 neighbours of \<open>1/3\<close> and
  \<open>2/3\<close>: \<open>11184811 / 2 ^ 25\<close> (0.3333333432674408) and \<open>11184811 / 2 ^ 24\<close>
  (0.6666666865348816).
\<close>

definition points4 :: "point list" where
  "points4 = [Point (Fin 0) (Fin 0), Point (Fin 10) (Fin 0), Point (Fin 20) (Fin 0),
              Point (Fin 30) (Fin 0)]"

definition rope4 :: rope where
  "rope4 =
     \<lparr>texture = texReady, points = Some points4,
      vertexBuffer = [Fin 0, Fin (- 5), Fin 0, Fin 5, Fin 10, Fin (- 5), Fin 10, Fin 5,
                      Fin 20, Fin (- 5), Fin 20, Fin 5, Fin 30, Fin (- 5), Fin 30, Fin 5],
      uvBuffer = [Fin 0, Fin 0, Fin 0, Fin 1,
                  Fin (11184811 / 33554432), Fin 0, Fin (11184811 / 33554432), Fin 1,
                  Fin (11184811 / 16777216), Fin 0, Fin (11184811 / 16777216), Fin 1,
                  Fin 1, Fin 0, Fin 1, Fin 1],
      indexBuffer = [0, 1, 2, 3, 4, 5, 6, 7],
      autoUpdate = True,
      events =
        [UpdateUv [Fin 0, Fin 0, Fin 0, Fin 1,
                   Fin (11184811 / 33554432), Fin 0, Fin (11184811 / 33554432), Fin 1,
                   Fin (11184811 / 16777216), Fin 0, Fin (11184811 / 16777216), Fin 1,
                   Fin 1, Fin 0, Fin 1, Fin 1],
         UpdateIndex [0, 1, 2, 3, 4, 5, 6, 7],
         MultiplyUvs,
         UpdateVertex [Fin 0, Fin (- 5), Fin 0, Fin 5, Fin 10, Fin (- 5), Fin 10, Fin 5,
                       Fin 20, Fin (- 5), Fin 20, Fin 5, Fin 30, Fin (- 5), Fin 30, Fin 5]]\<rparr>"

text \<open>
  The rope of the three points after the caller has replaced the sequence and switched
  \<^verbatim>\<open>autoUpdate\<close> off; and a rope whose first two points coincide, with freshly
  allocated buffers.
\<close>

definition ropeManual :: rope where
  "ropeManual = rope3\<lparr>points := Some points2, autoUpdate := False\<rparr>"

definition pointsDup :: "point list" where
  "pointsDup = [Point (Fin 0) (Fin 0), Point (Fin 0) (Fin 0), Point (Fin 10) (Fin 0)]"

definition ropeDup :: rope where
  "ropeDup =
     \<lparr>texture = texReady, points = Some pointsDup,
      vertexBuffer = replicate 12 (Fin 0),
      uvBuffer = replicate 12 (Fin 0),
      indexBuffer = replicate 6 0,
      autoUpdate = True,
      events = []\<rparr>"

text \<open>
  A loader; a sprite sheet with a trimmed and an untrimmed entry; a sprite sheet whose
  first entry is trimmed and has neither \<^verbatim>\<open>sourceSize\<close> nor
  \<^verbatim>\<open>spriteSourceSize\<close>; and a sprite sheet with such an entry in second place.
\<close>

definition loader0 :: json_loader where
  "loader0 =
     \<lparr>url = ''img/sheet.json'', baseUrl = ''img/'', loaded = False, loader_texture = None,
      loader_events = []\<rparr>"

definition sheetTwo :: json_data where
  "sheetTwo =
     \<lparr>frames = Some
        [(''a.png'',
          \<lparr>frame = Some (JsonRect (Fin 0) (Fin 0) (Fin 30) (Fin 20)), trimmed = True,
           sourceSize = Some (JsonSize (Fin 32) (Fin 24)),
           spriteSourceSize = Some (JsonRect (Fin 1) (Fin 2) (Fin 30) (Fin 20))\<rparr>),
         (''b.png'',
          \<lparr>frame = Some (JsonRect (Fin 30) (Fin 0) (Fin 8) (Fin 8)), trimmed = False,
           sourceSize = None, spriteSourceSize = None\<rparr>)],
      meta_image = Some ''sheet.png'', bones = False\<rparr>"

definition sheetBroken :: json_data where
  "sheetBroken =
     \<lparr>frames = Some
        [(''a.png'',
          \<lparr>frame = Some (JsonRect (Fin 0) (Fin 0) (Fin 30) (Fin 20)), trimmed = True,
           sourceSize = None, spriteSourceSize = None\<rparr>),
         (''b.png'',
          \<lparr>frame = Some (JsonRect (Fin 30) (Fin 0) (Fin 8) (Fin 8)), trimmed = False,
           sourceSize = None, spriteSourceSize = None\<rparr>)],
      meta_image = Some ''sheet.png'', bones = False\<rparr>"

definition sheetLate :: json_data where
  "sheetLate =
     \<lparr>frames = Some
        [(''b.png'',
          \<lparr>frame = Some (JsonRect (Fin 30) (Fin 0) (Fin 8) (Fin 8)), trimmed = False,
           sourceSize = None, spriteSourceSize = None\<rparr>),
         (''a.png'',
          \<lparr>frame = Some (JsonRect (Fin 0) (Fin 0) (Fin 30) (Fin 20)), trimmed = True,
           sourceSize = Some (JsonSize (Fin 32) (Fin 24)), spriteSourceSize = None\<rparr>),
         (''c.png'',
          \<lparr>frame = Some (JsonRect (Fin 38) (Fin 0) (Fin 8) (Fin 8)), trimmed = False,
           sourceSize = None, spriteSourceSize = None\<rparr>)],
      meta_image = Some ''sheet.png'', bones = False\<rparr>"

section \<open>Numbers and intervals\<close>

declare refreshLoop.simps [simp del] verticesLoop.simps [simp del]

lemma pow2_powr: "pow2 e = 2 powr (of_int e)"
proof (cases "0 \<le> e")
  case True
  then show ?thesis
    by (simp add: pow2_def powr_realpow [symmetric])
next
  case False
  have "(2::real) ^ nat (- e) = 2 powr real (nat (- e))"
    by (simp add: powr_realpow)
  also have "real (nat (- e)) = - of_int e" using False by simp
  finally have "(2::real) ^ nat (- e) = 2 powr (- of_int e)" .
  then show ?thesis
    using False by (simp add: pow2_def powr_minus_divide)
qed

lemma pow2_pos: "0 < pow2 e"
  by (simp add: pow2_powr)

lemma pow2_add: "pow2 (a + b) = pow2 a * pow2 b"
  by (simp add: pow2_powr powr_add)

lemma pow2_mono: "a \<le> b \<Longrightarrow> pow2 a \<le> pow2 b"
  by (simp add: pow2_powr)

lemma pow2_less_iff: "pow2 a < pow2 b \<longleftrightarrow> a < b"
  by (simp add: pow2_powr)

lemma pow2_le_iff: "pow2 a \<le> pow2 b \<longleftrightarrow> a \<le> b"
  by (simp add: pow2_powr)

lemma pow2_0: "pow2 0 = 1"
  by (simp add: pow2_def)

lemma pow2_nonneg_int: "0 \<le> e \<Longrightarrow> pow2 e = of_int (2 ^ nat e)"
  by (simp add: pow2_def)

lemma binade_bounds:
  assumes "x \<noteq> 0"
  shows "pow2 (binade x) \<le> \<bar>x\<bar>" and "\<bar>x\<bar> < pow2 (binade x + 1)"
proof -
  have pos: "0 < \<bar>x\<bar>" using assms by simp
  have "of_int (binade x) \<le> log 2 \<bar>x\<bar>" by (simp add: binade_def)
  then show "pow2 (binade x) \<le> \<bar>x\<bar>"
    using pos by (simp add: pow2_powr le_log_iff)
  have "log 2 \<bar>x\<bar> < of_int (binade x + 1)" by (simp add: binade_def)
  then show "\<bar>x\<bar> < pow2 (binade x + 1)"
    using pos by (simp add: pow2_powr log_less_iff)
qed

lemma binade_eqI:
  assumes "pow2 k \<le> \<bar>x\<bar>" "\<bar>x\<bar> < pow2 (k + 1)"
  shows "binade x = k"
proof -
  have pos: "0 < \<bar>x\<bar>" using assms(1) pow2_pos [of k] by linarith
  have "of_int k \<le> log 2 \<bar>x\<bar>"
    using assms(1) pos by (simp add: pow2_powr le_log_iff)
  moreover have "log 2 \<bar>x\<bar> < of_int k + 1"
    using assms(2) pos by (simp add: pow2_powr log_less_iff)
  ultimately show ?thesis
    unfolding binade_def by (rule floor_unique)
qed

lemma rhe_int: "round_half_even (of_int n) = n"
  by (simp add: round_half_even_def)

lemma rhe_bounds: "of_int (round_half_even y) \<le> y + 1 / 2" "y - 1 / 2 \<le> of_int (round_half_even y)"
  by (auto simp: round_half_even_def Let_def) linarith+

lemma rhe_mono:
  assumes "x \<le> y"
  shows "round_half_even x \<le> round_half_even y"
proof (cases "\<lfloor>x\<rfloor> = \<lfloor>y\<rfloor>")
  case True
  then show ?thesis
    using assms by (auto simp: round_half_even_def Let_def)
next
  case False
  then have "\<lfloor>x\<rfloor> < \<lfloor>y\<rfloor>" using assms floor_mono [OF assms] by linarith
  then have "\<lfloor>x\<rfloor> + 1 \<le> \<lfloor>y\<rfloor>" by simp
  moreover have "round_half_even x \<le> \<lfloor>x\<rfloor> + 1"
    by (auto simp: round_half_even_def Let_def)
  moreover have "\<lfloor>y\<rfloor> \<le> round_half_even y"
    by (auto simp: round_half_even_def Let_def)
  ultimately show ?thesis by linarith
qed

lemma pow2_nat: "pow2 (int n) = 2 ^ n"
  by (simp add: pow2_def)

lemma pow2_diff: "pow2 a / pow2 b = pow2 (a - b)"
  by (simp add: pow2_powr powr_diff)

lemma rhe_nonneg: "0 \<le> y \<Longrightarrow> 0 \<le> round_half_even y"
  using rhe_mono [of 0 y] rhe_int [of 0] by simp

lemma round_real_exact:
  assumes "x = of_int m * pow2 e" "\<bar>m\<bar> < 2 ^ p" "qmin \<le> e"
  shows "round_real p qmin x = x"
proof (cases "x = 0")
  case True
  then show ?thesis by (simp add: round_real_def)
next
  case False
  define E where "E = max (binade x - (int p - 1)) qmin"
  have "\<bar>x\<bar> = of_int \<bar>m\<bar> * pow2 e"
    using pow2_pos [of e] by (simp add: assms(1) abs_mult)
  also have "\<dots> < 2 ^ p * pow2 e"
  proof -
    have "real_of_int \<bar>m\<bar> < real_of_int (2 ^ p)" using assms(2) by (simp only: of_int_less_iff)
    then show ?thesis using pow2_pos [of e] by simp
  qed
  also have "\<dots> = pow2 (int p + e)" by (simp add: pow2_add pow2_nat)
  finally have "pow2 (binade x) < pow2 (int p + e)"
    using binade_bounds(1) [OF False] by linarith
  then have "binade x < int p + e" by (simp add: pow2_less_iff)
  then have Ee: "E \<le> e" using assms(3) by (simp add: E_def)
  have "x / pow2 E = of_int m * pow2 (e - E)"
    by (simp add: assms(1) pow2_diff [symmetric])
  also have "\<dots> = of_int (m * 2 ^ nat (e - E))"
    using Ee by (simp add: pow2_nonneg_int)
  finally have "round_half_even (x / pow2 E) = m * 2 ^ nat (e - E)"
    by (simp only: rhe_int)
  then have "of_int (round_half_even (x / pow2 E)) * pow2 E = of_int m * (pow2 (e - E) * pow2 E)"
    using Ee by (simp add: pow2_nonneg_int)
  also have "\<dots> = x" by (simp add: assms(1) pow2_add [symmetric])
  finally show ?thesis
    using False by (simp add: round_real_def E_def Let_def)
qed

lemma binade_mono:
  assumes "0 < x" "x \<le> y"
  shows "binade x \<le> binade y"
proof -
  have "log 2 \<bar>x\<bar> \<le> log 2 \<bar>y\<bar>" using assms by simp
  then show ?thesis unfolding binade_def by (rule floor_mono)
qed

lemma round_real_nonneg:
  assumes "0 \<le> x"
  shows "0 \<le> round_real p qmin x"
proof (cases "x = 0")
  case True
  then show ?thesis by (simp add: round_real_def)
next
  case False
  let ?q = "pow2 (max (binade x - (int p - 1)) qmin)"
  have "0 \<le> x / ?q" using assms pow2_pos [of "max (binade x - (int p - 1)) qmin"] by simp
  then have "0 \<le> round_half_even (x / ?q)" by (rule rhe_nonneg)
  then show ?thesis
    using False pow2_pos [of "max (binade x - (int p - 1)) qmin"]
    by (simp add: round_real_def Let_def)
qed

lemma round_real_mono:
  assumes "0 \<le> x" "x \<le> y" "0 < p"
  shows "round_real p qmin x \<le> round_real p qmin y"
proof (cases "x = 0")
  case True
  have "0 \<le> y" using assms by simp
  then show ?thesis using True round_real_nonneg [of y p qmin] by (simp add: round_real_def)
next
  case False
  then have xpos: "0 < x" and ypos: "0 < y" using assms by simp_all
  define Ex where "Ex = max (binade x - (int p - 1)) qmin"
  define Ey where "Ey = max (binade y - (int p - 1)) qmin"
  have Rx: "round_real p qmin x = of_int (round_half_even (x / pow2 Ex)) * pow2 Ex"
    using xpos by (simp add: round_real_def Ex_def Let_def)
  have Ry: "round_real p qmin y = of_int (round_half_even (y / pow2 Ey)) * pow2 Ey"
    using ypos by (simp add: round_real_def Ey_def Let_def)
  have bxy: "binade x \<le> binade y" using xpos assms(2) by (rule binade_mono)
  then have Exy: "Ex \<le> Ey" by (simp add: Ex_def Ey_def)
  show ?thesis
  proof (cases "Ex = Ey")
    case True
    have "x / pow2 Ey \<le> y / pow2 Ey"
      using assms(2) pow2_pos [of Ey] by (simp add: divide_right_mono)
    then have "round_half_even (x / pow2 Ey) \<le> round_half_even (y / pow2 Ey)"
      by (rule rhe_mono)
    then have "real_of_int (round_half_even (x / pow2 Ey)) \<le> real_of_int (round_half_even (y / pow2 Ey))"
      by simp
    then show ?thesis
      unfolding Rx Ry True using pow2_pos [of Ey] by (simp add: mult_right_mono)
  next
    case False
    then have lt: "Ex < Ey" using Exy by simp
    then have Ey_eq: "Ey = binade y - (int p - 1)"
      by (simp add: Ex_def Ey_def max_def split: if_splits)
    define b where "b = pow2 (binade y)"
    have lower: "b \<le> round_real p qmin y"
    proof -
      have "pow2 (int p - 1) = y' / pow2 Ey" if "y' = b" for y'
        using that by (simp add: b_def Ey_eq pow2_diff)
      then have "pow2 (int p - 1) \<le> y / pow2 Ey"
        using binade_bounds(1) [of y] ypos pow2_pos [of Ey]
        by (simp add: b_def divide_right_mono)
      moreover have "pow2 (int p - 1) = of_int (2 ^ nat (int p - 1))"
        using assms(3) by (simp add: pow2_nonneg_int)
      ultimately have "round_half_even (of_int (2 ^ nat (int p - 1))) \<le> round_half_even (y / pow2 Ey)"
        by (intro rhe_mono) simp
      then have "real_of_int (2 ^ nat (int p - 1)) \<le> real_of_int (round_half_even (y / pow2 Ey))"
        by (simp only: rhe_int of_int_le_iff)
      then have "pow2 (int p - 1) * pow2 Ey \<le> round_real p qmin y"
        unfolding Ry using pow2_pos [of Ey] assms(3)
        by (simp add: pow2_nonneg_int mult_right_mono)
      then show ?thesis by (simp add: b_def Ey_eq pow2_add [symmetric])
    qed
    have upper: "round_real p qmin x \<le> b"
    proof -
      have "binade x - (int p - 1) \<le> Ex" by (simp add: Ex_def)
      then have "binade x + 1 \<le> binade y" using lt Ey_eq by linarith
      then have "pow2 (binade x + 1) \<le> b" by (simp add: b_def pow2_le_iff)
      then have "x \<le> b" using binade_bounds(2) [of x] xpos by simp
      then have "x / pow2 Ex \<le> b / pow2 Ex"
        using pow2_pos [of Ex] by (simp add: divide_right_mono)
      moreover have ge: "0 \<le> binade y - Ex" using lt Ey_eq assms(3) by linarith
      then have "b / pow2 Ex = of_int (2 ^ nat (binade y - Ex))"
        by (simp add: b_def pow2_diff pow2_nonneg_int)
      ultimately have "round_half_even (x / pow2 Ex) \<le> round_half_even (of_int (2 ^ nat (binade y - Ex)))"
        by (intro rhe_mono) simp
      then have "real_of_int (round_half_even (x / pow2 Ex)) \<le> real_of_int (2 ^ nat (binade y - Ex))"
        by (simp only: rhe_int of_int_le_iff)
      then have "round_real p qmin x \<le> pow2 (binade y - Ex) * pow2 Ex"
        unfolding Rx using pow2_pos [of Ex] ge
        by (simp add: pow2_nonneg_int mult_right_mono)
      then show ?thesis by (simp add: b_def pow2_add [symmetric])
    qed
    show ?thesis using lower upper by linarith
  qed
qed

lemma round_real_error:
  assumes "x \<noteq> 0"
  shows "\<bar>round_real p qmin x - x\<bar> \<le> pow2 (max (binade x - (int p - 1)) qmin) / 2"
proof -
  let ?q = "pow2 (max (binade x - (int p - 1)) qmin)"
  have q: "0 < ?q" by (rule pow2_pos)
  have "\<bar>of_int (round_half_even (x / ?q)) - x / ?q\<bar> \<le> 1 / 2"
    using rhe_bounds [of "x / ?q"] by linarith
  then have "\<bar>of_int (round_half_even (x / ?q)) - x / ?q\<bar> * ?q \<le> 1 / 2 * ?q"
    using q by (intro mult_right_mono) simp_all
  moreover have "\<bar>of_int (round_half_even (x / ?q)) - x / ?q\<bar> * ?q =
      \<bar>of_int (round_half_even (x / ?q)) * ?q - x\<bar>"
  proof -
    have "(of_int (round_half_even (x / ?q)) - x / ?q) * ?q =
        of_int (round_half_even (x / ?q)) * ?q - x"
      using q by (simp add: left_diff_distrib)
    then show ?thesis
      using q abs_mult_pos [of ?q "of_int (round_half_even (x / ?q)) - x / ?q"] by simp
  qed
  ultimately show ?thesis
    using assms by (simp add: round_real_def Let_def)
qed

lemma round_real_idem:
  assumes "0 < p"
  shows "round_real p qmin (round_real p qmin x) = round_real p qmin x"
proof (cases "x = 0")
  case True
  then show ?thesis by (simp add: round_real_def)
next
  case False
  define E where "E = max (binade x - (int p - 1)) qmin"
  define M where "M = round_half_even (x / pow2 E)"
  have R: "round_real p qmin x = of_int M * pow2 E"
    using False by (simp add: round_real_def E_def M_def Let_def)
  have "binade x + 1 - E \<le> int p" by (simp add: E_def)
  then have "pow2 (binade x + 1 - E) \<le> pow2 (int p)" by (simp add: pow2_le_iff)
  moreover have "\<bar>x\<bar> / pow2 E < pow2 (binade x + 1) / pow2 E"
    using binade_bounds(2) [OF False] pow2_pos [of E] by (simp add: divide_strict_right_mono)
  ultimately have "\<bar>x\<bar> / pow2 E < 2 ^ p"
    by (simp add: pow2_diff pow2_nat)
  then have ub: "x / pow2 E \<le> of_int (2 ^ p)" and lb: "of_int (- (2 ^ p)) \<le> x / pow2 E"
    using pow2_pos [of E] by (simp_all add: abs_if field_simps split: if_splits)
  have "M \<le> round_half_even (of_int (2 ^ p))"
    unfolding M_def using ub by (rule rhe_mono)
  moreover have "round_half_even (of_int (- (2 ^ p))) \<le> M"
    unfolding M_def using lb by (rule rhe_mono)
  ultimately have Mb: "\<bar>M\<bar> \<le> 2 ^ p"
    using rhe_int [of "2 ^ p"] rhe_int [of "- (2 ^ p)"] by simp
  have qE: "qmin \<le> E" by (simp add: E_def)
  show ?thesis
  proof (cases "\<bar>M\<bar> < 2 ^ p")
    case True
    show ?thesis
      unfolding R by (rule round_real_exact [OF refl True qE])
  next
    case False
    then have "\<bar>M\<bar> = 2 ^ p" using Mb by simp
    then consider "M = 2 ^ p" | "M = - (2 ^ p)" by (auto simp: abs_if split: if_splits)
    then obtain m :: int where m: "M = 2 * m" "\<bar>m\<bar> < 2 ^ p"
    proof cases
      case 1
      obtain k where k: "p = Suc k" using assms by (cases p) simp_all
      show ?thesis
        by (rule that [of "2 ^ k"]) (simp_all add: 1 k)
    next
      case 2
      obtain k where k: "p = Suc k" using assms by (cases p) simp_all
      show ?thesis
        by (rule that [of "- (2 ^ k)"]) (simp_all add: 2 k)
    qed
    have "pow2 1 = 2" by (simp add: pow2_def)
    then have "of_int M * pow2 E = of_int m * pow2 (E + 1)"
      by (simp add: m(1) pow2_add)
    moreover have "qmin \<le> E + 1" using qE by simp
    ultimately show ?thesis
      unfolding R using round_real_exact [OF _ m(2), of "of_int m * pow2 (E + 1)" "E + 1" qmin]
      by simp
  qed
qed

lemma js_round_Fin:
  "\<bar>round_real p qmin x\<bar> < pow2 emax \<Longrightarrow> js_round p qmin emax x = Fin (round_real p qmin x)"
  by (simp add: js_round_def Let_def)

lemma js_round_exact:
  assumes "x = of_int m * pow2 e" "\<bar>m\<bar> < 2 ^ p" "qmin \<le> e" "\<bar>x\<bar> < pow2 emax"
  shows "js_round p qmin emax x = Fin x"
  using assms(4) by (simp add: js_round_def Let_def round_real_exact [OF assms(1-3)])

lemma fround64_int: "\<bar>m\<bar> < 2 ^ 53 \<Longrightarrow> fround64 (of_int m) = Fin (of_int m)"
proof -
  assume a: "\<bar>m\<bar> < 2 ^ 53"
  have "\<bar>real_of_int m\<bar> < real_of_int (2 ^ 53)"
    using a by (simp only: of_int_abs [symmetric] of_int_less_iff)
  also have "\<dots> \<le> pow2 1024"
    using pow2_mono [of 53 1024] by (simp add: pow2_nonneg_int)
  finally have b: "\<bar>real_of_int m\<bar> < pow2 1024" .
  show ?thesis
    unfolding fround64_def
    by (rule js_round_exact [of _ m 0]) (use a b in \<open>simp_all add: pow2_0\<close>)
qed

lemma fround32_int: "\<bar>m\<bar> < 2 ^ 24 \<Longrightarrow> fround32 (of_int m) = Fin (of_int m)"
proof -
  assume a: "\<bar>m\<bar> < 2 ^ 24"
  have "\<bar>real_of_int m\<bar> < real_of_int (2 ^ 24)"
    using a by (simp only: of_int_abs [symmetric] of_int_less_iff)
  also have "\<dots> \<le> pow2 128"
    using pow2_mono [of 24 128] by (simp add: pow2_nonneg_int)
  finally have b: "\<bar>real_of_int m\<bar> < pow2 128" .
  show ?thesis
    unfolding fround32_def
    by (rule js_round_exact [of _ m 0]) (use a b in \<open>simp_all add: pow2_0\<close>)
qed

lemma fround64_numeral [simp]:
  "(numeral k :: int) < 2 ^ 53 \<Longrightarrow> fround64 (numeral k) = Fin (numeral k)"
  "(numeral k :: int) < 2 ^ 53 \<Longrightarrow> fround64 (- numeral k) = Fin (- numeral k)"
  "fround64 0 = Fin 0" "fround64 1 = Fin 1" "fround64 (- 1) = Fin (- 1)"
  using fround64_int [of "numeral k"] fround64_int [of "- numeral k"] fround64_int [of 0]
    fround64_int [of 1] fround64_int [of "- 1"]
  by simp_all

lemma fround32_numeral [simp]:
  "(numeral k :: int) < 2 ^ 24 \<Longrightarrow> fround32 (numeral k) = Fin (numeral k)"
  "(numeral k :: int) < 2 ^ 24 \<Longrightarrow> fround32 (- numeral k) = Fin (- numeral k)"
  "fround32 0 = Fin 0" "fround32 1 = Fin 1" "fround32 (- 1) = Fin (- 1)"
  using fround32_int [of "numeral k"] fround32_int [of "- numeral k"] fround32_int [of 0]
    fround32_int [of 1] fround32_int [of "- 1"]
  by simp_all

lemma fround_half [simp]: "fround64 (1 / 2) = Fin (1 / 2)" "fround32 (1 / 2) = Fin (1 / 2)"
proof -
  have h: "(1 / 2 :: real) = of_int 1 * pow2 (- 1)" by (simp add: pow2_def)
  have b: "\<bar>1 / 2 :: real\<bar> < pow2 1024" "\<bar>1 / 2 :: real\<bar> < pow2 128"
    using pow2_mono [of 0 1024] pow2_mono [of 0 128] by (simp_all add: pow2_0)
  show "fround64 (1 / 2) = Fin (1 / 2)"
    unfolding fround64_def by (rule js_round_exact [OF h _ _ b(1)]) simp_all
  show "fround32 (1 / 2) = Fin (1 / 2)"
    unfolding fround32_def by (rule js_round_exact [OF h _ _ b(2)]) simp_all
qed

lemma round_real_at:
  assumes "pow2 k \<le> \<bar>x\<bar>" "\<bar>x\<bar> < pow2 (k + 1)"
  shows "round_real p qmin x =
     of_int (round_half_even (x / pow2 (max (k - (int p - 1)) qmin))) *
       pow2 (max (k - (int p - 1)) qmin)"
proof -
  have "x \<noteq> 0" using assms(1) pow2_pos [of k] by auto
  then show ?thesis
    by (simp add: round_real_def Let_def binade_eqI [OF assms])
qed

lemma fround64_third: "fround64 (1 / 3) = Fin (6004799503160661 / 18014398509481984)"
proof -
  have "round_real 53 (- 1074) (1 / 3) = 6004799503160661 / 18014398509481984"
    by (subst round_real_at [of "- 2"]) (simp_all add: pow2_def round_half_even_def Let_def)
  moreover have "pow2 0 \<le> pow2 1024" by (rule pow2_mono) simp
  ultimately show ?thesis
    by (simp add: fround64_def js_round_def Let_def pow2_0)
qed

lemma fround32_third:
  "fround32 (6004799503160661 / 18014398509481984) = Fin (11184811 / 33554432)"
proof -
  have "round_real 24 (- 149) (6004799503160661 / 18014398509481984) = 11184811 / 33554432"
    by (subst round_real_at [of "- 2"]) (simp_all add: pow2_def round_half_even_def Let_def)
  moreover have "pow2 0 \<le> pow2 128" by (rule pow2_mono) simp
  ultimately show ?thesis
    by (simp add: fround32_def js_round_def Let_def pow2_0)
qed

lemma fround64_two_thirds: "fround64 (2 / 3) = Fin (6004799503160661 / 9007199254740992)"
proof -
  have "round_real 53 (- 1074) (2 / 3) = 6004799503160661 / 9007199254740992"
    by (subst round_real_at [of "- 1"]) (simp_all add: pow2_def round_half_even_def Let_def)
  moreover have "pow2 0 \<le> pow2 1024" by (rule pow2_mono) simp
  ultimately show ?thesis
    by (simp add: fround64_def js_round_def Let_def pow2_0)
qed

lemma fround32_two_thirds:
  "fround32 (6004799503160661 / 9007199254740992) = Fin (11184811 / 16777216)"
proof -
  have "round_real 24 (- 149) (6004799503160661 / 9007199254740992) = 11184811 / 16777216"
    by (subst round_real_at [of "- 1"]) (simp_all add: pow2_def round_half_even_def Let_def)
  moreover have "pow2 0 \<le> pow2 128" by (rule pow2_mono) simp
  ultimately show ?thesis
    by (simp add: fround32_def js_round_def Let_def pow2_0)
qed

lemma round_real_unit:
  assumes "0 \<le> x" "x \<le> 1" "0 < p" "qmin \<le> 0"
  shows "0 \<le> round_real p qmin x" "round_real p qmin x \<le> 1"
proof -
  show "0 \<le> round_real p qmin x" using assms(1) by (rule round_real_nonneg)
  have "(1::int) < 2 ^ p" using assms(3) by (intro one_less_power) simp_all
  then have "round_real p qmin 1 = 1"
    using round_real_exact [of 1 1 0 p qmin] assms(4) by (simp add: pow2_0)
  then show "round_real p qmin x \<le> 1"
    using round_real_mono [OF assms(1,2,3), of qmin] by simp
qed

lemma js_round_unit:
  assumes "0 \<le> x" "x \<le> 1" "0 < p" "qmin \<le> 0" "0 < emax"
  shows "js_round p qmin emax x = Fin (round_real p qmin x)"
proof -
  have "pow2 0 < pow2 emax" using assms(5) by (simp add: pow2_less_iff)
  then have "\<bar>round_real p qmin x\<bar> < pow2 emax"
    using round_real_unit [OF assms(1-4)] by (simp add: pow2_0)
  then show ?thesis by (rule js_round_Fin)
qed

lemma round_real_one: "0 < p \<Longrightarrow> qmin \<le> 0 \<Longrightarrow> round_real p qmin 1 = 1"
proof -
  assume p: "0 < p" and q: "qmin \<le> 0"
  have "(1::int) < 2 ^ p" using p by (intro one_less_power) simp_all
  then show ?thesis
    using round_real_exact [of 1 1 0 p qmin] q by (simp add: pow2_0)
qed

lemma js_round_idem:
  assumes "0 < p"
  shows "js_round p qmin emax x = Fin y \<Longrightarrow> js_round p qmin emax y = Fin y"
  by (auto simp: js_round_def Let_def round_real_idem [OF assms] split: if_splits)

lemma f32_idem: "f32 (f32 v) = f32 v"
proof (cases v)
  case (Fin x)
  show ?thesis
  proof (cases "fround32 x")
    case (Fin y)
    then have "fround32 y = Fin y"
      unfolding fround32_def by (intro js_round_idem) simp_all
    then show ?thesis using Fin \<open>v = Fin x\<close> by simp
  qed (simp_all add: \<open>v = Fin x\<close>)
qed simp_all

lemma sqrt_100: "sqrt 100 = 10"
  using real_sqrt_abs [of 10] by simp

lemma sqrt_400: "sqrt 400 = 20"
  using real_sqrt_abs [of 20] by simp

lemma upt_2: "[0..<2] = [0, 1]"
  by (simp add: upt_rec numeral_nat)

lemma upt_3: "[0..<3] = [0, 1, 2]"
  by (simp add: upt_rec numeral_nat)

lemma upt_4: "[0..<4] = [0, 1, 2, 3]"
  by (simp add: upt_rec numeral_nat)

lemma upt_6: "[0..<6] = [0, 1, 2, 3, 4, 5]"
  by (simp add: upt_rec numeral_nat)

lemma upt_8: "[0..<8] = [0, 1, 2, 3, 4, 5, 6, 7]"
  by (simp add: upt_rec numeral_nat)

lemma js_add_NaN_right: "js_add a NaN = NaN"
  by (cases a) simp_all

lemma js_mul_NaN_left: "js_mul NaN b = NaN"
  by (cases b) simp_all

lemma js_sub_self: "js_sub a a = Fin 0 \<or> js_sub a a = NaN"
  by (cases a) (simp_all add: js_sub_def)

section \<open>The loops, slot by slot\<close>

lemma length_mapUvs: "length (mapUvs f xs) = length xs"
  by (induction f xs rule: mapUvs.induct) simp_all

lemma mapUvs_id_f32: "list_all (\<lambda>v. f32 v = v) xs \<Longrightarrow> mapUvs (\<lambda>p. p) xs = xs"
  by (induction "\<lambda>p::jsnum \<times> jsnum. p" xs rule: mapUvs.induct) simp_all

lemma length_verticesLoop: "length (verticesLoop ps h i lp vs) = length vs"
proof (induction ps h i lp vs rule: verticesLoop.induct)
  case (1 ps h i lp vs)
  show ?case
  proof (cases "i < length ps")
    case True
    then show ?thesis
      using "1.IH" [OF True refl refl refl refl refl refl refl refl refl refl]
      by (subst verticesLoop.simps) (simp add: Let_def)
  next
    case False
    then show ?thesis by (subst verticesLoop.simps) simp
  qed
qed

lemma length_refreshLoop:
  "length (fst (refreshLoop i n uvs idx)) = length uvs \<and>
   length (snd (refreshLoop i n uvs idx)) = length idx"
proof (induction i n uvs idx rule: refreshLoop.induct)
  case (1 i n uvs idx)
  show ?case
  proof (cases "i < n")
    case True
    then show ?thesis
      using "1.IH" [OF True refl refl refl refl refl]
      by (subst (1 2) refreshLoop.simps) (simp add: Let_def)
  next
    case False
    then show ?thesis by (subst (1 2) refreshLoop.simps) simp
  qed
qed

lemma verticesLoop_step:
  "i < length ps \<Longrightarrow>
   verticesLoop ps h i lp vs =
     verticesLoop ps h (i + 1) (ps ! i)
       (writeQuad vs i (vertexQuad h lp (ps ! i) (nextPointAt ps i)))"
  by (subst verticesLoop.simps)
     (simp add: Let_def writeQuad_def vertexQuad_def perpOf_def perpLengthOf_def nextPointAt_def)

lemma verticesLoop_stop: "\<not> i < length ps \<Longrightarrow> verticesLoop ps h i lp vs = vs"
  by (subst verticesLoop.simps) simp

lemma length_writeQuad: "length (writeQuad xs i q) = length xs"
  by (simp add: writeQuad_def)

lemma writeQuad_nth_in:
  "i * 4 + 4 \<le> length xs \<Longrightarrow> c < 4 \<Longrightarrow> writeQuad xs i q ! (i * 4 + c) = q ! c"
proof -
  assume a: "i * 4 + 4 \<le> length xs" and c: "c < 4"
  from c consider "c = 0" | "c = 1" | "c = 2" | "c = 3" by linarith
  then show ?thesis
    using a by cases (simp_all add: writeQuad_def nth_list_update)
qed

lemma writeQuad_nth_out:
  "k < i * 4 \<or> i * 4 + 4 \<le> k \<Longrightarrow> writeQuad xs i q ! k = xs ! k"
  by (auto simp: writeQuad_def nth_list_update)

lemma verticesLoop_nth:
  "j < length ps \<Longrightarrow> c < 4 \<Longrightarrow> length ps * 4 \<le> length vs \<Longrightarrow>
   verticesLoop ps h i lp vs ! (j * 4 + c) =
     (if i \<le> j
      then vertexQuad h (if j = i then lp else ps ! (j - 1)) (ps ! j) (nextPointAt ps j) ! c
      else vs ! (j * 4 + c))"
proof (induction ps h i lp vs rule: verticesLoop.induct)
  case (1 ps h i lp vs)
  show ?case
  proof (cases "i < length ps")
    case True
    let ?vs = "writeQuad vs i (vertexQuad h lp (ps ! i) (nextPointAt ps i))"
    have len: "length ps * 4 \<le> length ?vs"
      using "1.prems" by (simp add: length_writeQuad)
    have IH: "verticesLoop ps h (i + 1) (ps ! i) ?vs ! (j * 4 + c) =
       (if i + 1 \<le> j
        then vertexQuad h (if j = i + 1 then ps ! i else ps ! (j - 1)) (ps ! j) (nextPointAt ps j) ! c
        else ?vs ! (j * 4 + c))"
      using "1.IH" [OF True refl refl refl refl refl refl refl refl refl refl "1.prems"(1,2)] len
      by (simp add: Let_def writeQuad_def vertexQuad_def perpOf_def perpLengthOf_def nextPointAt_def)
    have bound: "i * 4 + 4 \<le> length vs"
      using True "1.prems"(3) by simp
    have step: "verticesLoop ps h i lp vs ! (j * 4 + c) =
       verticesLoop ps h (i + 1) (ps ! i) ?vs ! (j * 4 + c)"
      by (simp only: verticesLoop_step [OF True])
    consider "i < j" | "i = j" | "j < i" by linarith
    then show ?thesis
    proof cases
      case 1
      then show ?thesis
        unfolding step IH by auto
    next
      case 2
      then show ?thesis
        unfolding step IH using writeQuad_nth_in [OF bound "1.prems"(2)] by simp
    next
      case 3
      then have "j * 4 + c < i * 4" using "1.prems"(2) by simp
      then show ?thesis
        unfolding step IH using 3 by (simp add: writeQuad_nth_out)
    qed
  next
    case False
    then show ?thesis using "1.prems" by (simp add: verticesLoop_stop)
  qed
qed

lemma refreshLoop_step:
  "i < n \<Longrightarrow>
   refreshLoop i n uvs idx =
     refreshLoop (i + 1) n (writeQuad uvs i (uvQuad n i))
       (writePair idx i (of_nat (i * 2)) (of_nat (i * 2 + 1)))"
  by (subst refreshLoop.simps)
     (simp add: Let_def writeQuad_def uvQuad_def uvAmount_def writePair_def)

lemma refreshLoop_stop: "\<not> i < n \<Longrightarrow> refreshLoop i n uvs idx = (uvs, idx)"
  by (subst refreshLoop.simps) simp

lemma length_writePair: "length (writePair xs i a b) = length xs"
  by (simp add: writePair_def)

lemma writePair_nth_in:
  "i * 2 + 2 \<le> length xs \<Longrightarrow> c < 2 \<Longrightarrow>
   writePair xs i a b ! (i * 2 + c) = (if c = 0 then a else b)"
proof -
  assume a: "i * 2 + 2 \<le> length xs" and c: "c < 2"
  from c consider "c = 0" | "c = 1" by linarith
  then show ?thesis
    using a by cases (simp_all add: writePair_def nth_list_update)
qed

lemma writePair_nth_out:
  "k < i * 2 \<or> i * 2 + 2 \<le> k \<Longrightarrow> writePair xs i a b ! k = xs ! k"
  by (auto simp: writePair_def nth_list_update)

lemma refreshLoop_uvs_nth:
  "j < n \<Longrightarrow> c < 4 \<Longrightarrow> n * 4 \<le> length uvs \<Longrightarrow>
   fst (refreshLoop i n uvs idx) ! (j * 4 + c) =
     (if i \<le> j then uvQuad n j ! c else uvs ! (j * 4 + c))"
proof (induction i n uvs idx rule: refreshLoop.induct)
  case (1 i n uvs idx)
  show ?case
  proof (cases "i < n")
    case True
    let ?uvs = "writeQuad uvs i (uvQuad n i)"
    let ?idx = "writePair idx i (of_nat (i * 2)) (of_nat (i * 2 + 1))"
    have len: "n * 4 \<le> length ?uvs"
      using "1.prems" by (simp add: length_writeQuad)
    have IH: "fst (refreshLoop (i + 1) n ?uvs ?idx) ! (j * 4 + c) =
       (if i + 1 \<le> j then uvQuad n j ! c else ?uvs ! (j * 4 + c))"
      using "1.IH" [OF True refl refl refl refl refl "1.prems"(1,2)] len
      by (simp add: Let_def writeQuad_def uvQuad_def uvAmount_def writePair_def)
    have bound: "i * 4 + 4 \<le> length uvs"
      using True "1.prems"(3) by simp
    have step: "fst (refreshLoop i n uvs idx) ! (j * 4 + c) =
       fst (refreshLoop (i + 1) n ?uvs ?idx) ! (j * 4 + c)"
      by (simp only: refreshLoop_step [OF True])
    consider "i < j" | "i = j" | "j < i" by linarith
    then show ?thesis
    proof cases
      case 1
      then show ?thesis
        unfolding step IH by auto
    next
      case 2
      then show ?thesis
        unfolding step IH using writeQuad_nth_in [OF bound "1.prems"(2)] by simp
    next
      case 3
      then have "j * 4 + c < i * 4" using "1.prems"(2) by simp
      then show ?thesis
        unfolding step IH using 3 by (simp add: writeQuad_nth_out)
    qed
  next
    case False
    then show ?thesis using "1.prems" by (simp add: refreshLoop_stop)
  qed
qed

lemma refreshLoop_indices_nth:
  "j < n \<Longrightarrow> c < 2 \<Longrightarrow> n * 2 \<le> length idx \<Longrightarrow>
   snd (refreshLoop i n uvs idx) ! (j * 2 + c) =
     (if i \<le> j then of_nat (j * 2 + c) else idx ! (j * 2 + c))"
proof (induction i n uvs idx rule: refreshLoop.induct)
  case (1 i n uvs idx)
  show ?case
  proof (cases "i < n")
    case True
    let ?uvs = "writeQuad uvs i (uvQuad n i)"
    let ?idx = "writePair idx i (of_nat (i * 2)) (of_nat (i * 2 + 1))"
    have len: "n * 2 \<le> length ?idx"
      using "1.prems" by (simp add: length_writePair)
    have IH: "snd (refreshLoop (i + 1) n ?uvs ?idx) ! (j * 2 + c) =
       (if i + 1 \<le> j then of_nat (j * 2 + c) else ?idx ! (j * 2 + c))"
      using "1.IH" [OF True refl refl refl refl refl "1.prems"(1,2)] len
      by (simp add: Let_def writeQuad_def uvQuad_def uvAmount_def writePair_def)
    have bound: "i * 2 + 2 \<le> length idx"
      using True "1.prems"(3) by simp
    have step: "snd (refreshLoop i n uvs idx) ! (j * 2 + c) =
       snd (refreshLoop (i + 1) n ?uvs ?idx) ! (j * 2 + c)"
      by (simp only: refreshLoop_step [OF True])
    consider "i < j" | "i = j" | "j < i" by linarith
    then show ?thesis
    proof cases
      case 1
      then show ?thesis
        unfolding step IH by auto
    next
      case 2
      have "c = 0 \<or> c = 1" using "1.prems"(2) by linarith
      then show ?thesis
        unfolding step IH using 2 writePair_nth_in [OF bound "1.prems"(2)] by auto
    next
      case 3
      then have "j * 2 + c < i * 2" using "1.prems"(2) by simp
      then show ?thesis
        unfolding step IH using 3 by (simp add: writePair_nth_out)
    qed
  next
    case False
    then show ?thesis using "1.prems" by (simp add: refreshLoop_stop)
  qed
qed

lemma list_eq_chunks:
  assumes "0 < m" "length xs = n * m" "length ys = n * m"
    and "\<And>j c. j < n \<Longrightarrow> c < m \<Longrightarrow> xs ! (j * m + c) = ys ! (j * m + c)"
  shows "xs = ys"
proof (rule nth_equalityI)
  show "length xs = length ys" using assms by simp
next
  fix k assume k: "k < length xs"
  have "k div m < n" using k assms(1,2)
    by (simp add: less_mult_imp_div_less)
  moreover have "k mod m < m" using assms(1) by simp
  ultimately have "xs ! (k div m * m + k mod m) = ys ! (k div m * m + k mod m)"
    by (rule assms(4))
  then show "xs ! k = ys ! k" by simp
qed

lemma length_concat_chunks:
  "(\<And>i. i < n \<Longrightarrow> length (f i) = m) \<Longrightarrow> length (concat (map f [0..<n])) = n * m"
  by (induction n) simp_all

lemma nth_concat_chunks:
  "(\<And>i. i < n \<Longrightarrow> length (f i) = m) \<Longrightarrow> j < n \<Longrightarrow> c < m \<Longrightarrow>
   concat (map f [0..<n]) ! (j * m + c) = f j ! c"
proof (induction n)
  case 0
  then show ?case by simp
next
  case (Suc n)
  have len: "length (concat (map f [0..<n])) = n * m"
    using Suc.prems(1) by (simp add: length_concat_chunks)
  show ?case
  proof (cases "j < n")
    case True
    then have "j * m + c < n * m"
      using Suc.prems(3)
      by (metis add.commute less_le_trans mult_Suc nat_add_left_cancel_less Suc_leI mult_le_mono1)
    then show ?thesis
      using Suc.IH [OF Suc.prems(1) True Suc.prems(3)] len by (simp add: nth_append)
  next
    case False
    then have "j = n" using Suc.prems(2) by simp
    then show ?thesis using len by (simp add: nth_append)
  qed
qed

lemma length_vertexQuad: "length (vertexQuad h lp p np) = 4"
  by (simp add: vertexQuad_def split: prod.splits)

lemma length_ropeVertices: "length (ropeVertices ps h) = length ps * 4"
  unfolding ropeVertices_def by (rule length_concat_chunks) (simp add: length_vertexQuad)

lemma length_ropeUvs: "length (ropeUvs n) = n * 4"
  unfolding ropeUvs_def by (rule length_concat_chunks) (simp add: uvQuad_def)

lemma length_ropeIndices: "length (ropeIndices n) = n * 2"
  by (simp add: ropeIndices_def)

lemma ropeUvs_nth:
  "j < n \<Longrightarrow> c < 4 \<Longrightarrow>
   ropeUvs n ! (j * 4 + c) = (if j = 0 then [Fin 0, Fin 0, Fin 0, Fin 1] else uvQuad n j) ! c"
  unfolding ropeUvs_def
  by (rule nth_concat_chunks) (simp_all add: uvQuad_def)

lemma ropeVertices_nth:
  "j < length ps \<Longrightarrow> c < 4 \<Longrightarrow>
   ropeVertices ps h ! (j * 4 + c) =
     vertexQuad h (lastPointAt ps j) (ps ! j) (nextPointAt ps j) ! c"
  unfolding ropeVertices_def
  by (rule nth_concat_chunks) (simp_all add: length_vertexQuad)

lemma verticesLoop_closed:
  assumes "length vs = length ps * 4"
  shows "verticesLoop ps h 0 (ps ! 0) vs = ropeVertices ps h"
proof (rule list_eq_chunks [where m = 4 and n = "length ps"])
  fix j c :: nat assume jc: "j < length ps" "c < 4"
  have "verticesLoop ps h 0 (ps ! 0) vs ! (j * 4 + c) =
      vertexQuad h (if j = 0 then ps ! 0 else ps ! (j - 1)) (ps ! j) (nextPointAt ps j) ! c"
    using verticesLoop_nth [OF jc, of vs h 0 "ps ! 0"] assms by simp
  then show "verticesLoop ps h 0 (ps ! 0) vs ! (j * 4 + c) = ropeVertices ps h ! (j * 4 + c)"
    using jc by (simp add: ropeVertices_nth lastPointAt_def)
qed (simp_all add: assms length_verticesLoop length_ropeVertices)

lemma first_quad_nth:
  "4 \<le> length xs \<Longrightarrow> c < 4 \<Longrightarrow> xs[0 := a0, 1 := a1, 2 := a2, 3 := a3] ! c = [a0, a1, a2, a3] ! c"
proof -
  assume a: "4 \<le> length xs" and c: "c < 4"
  from a have ne: "xs \<noteq> []" by auto
  from c consider "c = 0" | "c = 1" | "c = 2" | "c = 3" by linarith
  then show ?thesis using a ne by cases (auto simp: nth_list_update)
qed

lemma first_pair_nth:
  "2 \<le> length xs \<Longrightarrow> c < 2 \<Longrightarrow> xs[0 := a0, 1 := a1] ! c = [a0, a1] ! c"
proof -
  assume a: "2 \<le> length xs" and c: "c < 2"
  from a have ne: "xs \<noteq> []" by auto
  from c consider "c = 0" | "c = 1" by linarith
  then show ?thesis using a ne by cases (auto simp: nth_list_update)
qed

lemma refreshLoop_closed:
  assumes "1 \<le> n" "length uvs = n * 4" "length idx = n * 2"
  shows "refreshLoop 1 n (uvs[0 := Fin 0, 1 := Fin 0, 2 := Fin 0, 3 := Fin 1]) (idx[0 := 0, 1 := 1]) =
     (ropeUvs n, ropeIndices n)"
proof (rule prod_eqI)
  let ?uvs = "uvs[0 := Fin 0, 1 := Fin 0, 2 := Fin 0, 3 := Fin 1]"
  let ?idx = "idx[0 := 0, 1 := 1]"
  have "fst (refreshLoop 1 n ?uvs ?idx) = ropeUvs n"
  proof (rule list_eq_chunks [where m = 4 and n = n])
    fix j c :: nat assume jc: "j < n" "c < 4"
    have "fst (refreshLoop 1 n ?uvs ?idx) ! (j * 4 + c) =
        (if 1 \<le> j then uvQuad n j ! c else ?uvs ! (j * 4 + c))"
      using refreshLoop_uvs_nth [OF jc, of ?uvs 1 ?idx] assms by simp
    moreover have "?uvs ! c = [Fin 0, Fin 0, Fin 0, Fin 1] ! c"
      using assms jc by (intro first_quad_nth) simp_all
    moreover note ropeUvs_nth [OF jc]
    ultimately show "fst (refreshLoop 1 n ?uvs ?idx) ! (j * 4 + c) = ropeUvs n ! (j * 4 + c)"
      by (cases "j = 0") simp_all
  qed (simp_all add: assms length_refreshLoop length_ropeUvs)
  then show "fst (refreshLoop 1 n ?uvs ?idx) = fst (ropeUvs n, ropeIndices n)" by simp
  have "snd (refreshLoop 1 n ?uvs ?idx) = ropeIndices n"
  proof (rule list_eq_chunks [where m = 2 and n = n])
    fix j c :: nat assume jc: "j < n" "c < 2"
    have "snd (refreshLoop 1 n ?uvs ?idx) ! (j * 2 + c) =
        (if 1 \<le> j then of_nat (j * 2 + c) else ?idx ! (j * 2 + c))"
      using refreshLoop_indices_nth [OF jc, of ?idx 1 ?uvs] assms by simp
    moreover have "?idx ! c = [0, 1] ! c"
      using assms jc by (intro first_pair_nth) simp_all
    moreover have "c = 0 \<or> c = 1" using jc by linarith
    moreover have "j * 2 + c < n * 2" using jc by linarith
    ultimately show "snd (refreshLoop 1 n ?uvs ?idx) ! (j * 2 + c) = ropeIndices n ! (j * 2 + c)"
      by (cases "j = 0") (auto simp: ropeIndices_def)
  qed (simp_all add: assms length_refreshLoop length_ropeIndices)
  then show "snd (refreshLoop 1 n ?uvs ?idx) = snd (ropeUvs n, ropeIndices n)" by simp
qed

lemma uvAmount_round:
  assumes "1 \<le> n" "n < 2 ^ 32"
  shows "uvAmount n i = (if n = 1 then js_div (Fin (real i)) (Fin 0) else fround64 (real i / (real n - 1)))"
proof -
  have "\<bar>int n - 1\<bar> < 2 ^ 53"
  proof -
    have "int n < 2 ^ 32" using assms(2) by (simp only: of_nat_less_numeral_power_cancel_iff)
    then show ?thesis using assms(1) by simp
  qed
  then have "fround64 (of_int (int n - 1)) = Fin (of_int (int n - 1))"
    by (rule fround64_int)
  then have "js_sub (Fin (real n)) (Fin 1) = Fin (real n - 1)"
    by (simp add: js_sub_def)
  then show ?thesis
    using assms(1) by (auto simp: uvAmount_def js_of_nat_def)
qed

lemma uvRatio_unit:
  assumes "2 \<le> n" "i < n"
  shows "0 \<le> real i / (real n - 1)" "real i / (real n - 1) \<le> 1"
  using assms by (simp_all add: divide_le_eq)

lemma f32_uvAmount:
  assumes "2 \<le> n" "n < 2 ^ 32" "i < n"
  shows "f32 (uvAmount n i) = Fin (uvParam n i)"
proof -
  let ?x = "real i / (real n - 1)"
  have u: "0 \<le> ?x" "?x \<le> 1" using uvRatio_unit [OF assms(1,3)] by simp_all
  have a: "uvAmount n i = fround64 ?x"
    using uvAmount_round [of n i] assms by simp
  have b: "fround64 ?x = Fin (round_real 53 (- 1074) ?x)"
    unfolding fround64_def by (rule js_round_unit [OF u]) simp_all
  have v: "0 \<le> round_real 53 (- 1074) ?x" "round_real 53 (- 1074) ?x \<le> 1"
    by (rule round_real_unit [OF u]; simp)+
  have "fround32 (round_real 53 (- 1074) ?x) = Fin (uvParam n i)"
    unfolding fround32_def uvParam_def by (rule js_round_unit [OF v]) simp_all
  then show ?thesis by (simp add: a b)
qed

lemma f32_fround64_uv:
  assumes "2 \<le> n" "n < 2 ^ 32" "i < n"
  shows "f32 (fround64 (real i / (real n - 1))) = Fin (uvParam n i)"
  using f32_uvAmount [OF assms] uvAmount_round [of n i] assms by simp

lemma uvParam_mono:
  assumes "2 \<le> n" "i \<le> j"
  shows "uvParam n i \<le> uvParam n j"
proof -
  have a: "0 \<le> real i / (real n - 1)" using assms(1) by simp
  have b: "real i / (real n - 1) \<le> real j / (real n - 1)"
    using assms by (intro divide_right_mono) simp_all
  have c: "round_real 53 (- 1074) (real i / (real n - 1)) \<le>
      round_real 53 (- 1074) (real j / (real n - 1))"
    by (rule round_real_mono [OF a b]) simp
  have d: "0 \<le> round_real 53 (- 1074) (real i / (real n - 1))"
    by (rule round_real_nonneg [OF a])
  show ?thesis
    unfolding uvParam_def by (rule round_real_mono [OF d c]) simp
qed

lemma uvParam_first: "uvParam n 0 = 0"
  by (simp add: uvParam_def round_real_def)

lemma uvParam_last: "2 \<le> n \<Longrightarrow> uvParam n (n - 1) = 1"
proof -
  assume n: "2 \<le> n"
  then have "real (n - 1) = real n - 1" by (simp add: of_nat_diff)
  then have x: "real (n - 1) / (real n - 1) = 1" using n by simp
  show ?thesis
    unfolding uvParam_def x by (simp add: round_real_one)
qed

lemma uvParam_near:
  assumes "2 \<le> n" "i < n"
  shows "\<bar>uvParam n i - real i / (real n - 1)\<bar> \<le> 1 / 2 ^ 24 + 1 / 2 ^ 53"
proof (cases "i = 0")
  case True
  then show ?thesis by (simp add: uvParam_first)
next
  case False
  let ?x = "real i / (real n - 1)"
  let ?y = "round_real 53 (- 1074) ?x"
  have u: "0 \<le> ?x" "?x \<le> 1" using uvRatio_unit [OF assms] by simp_all
  have x0: "?x \<noteq> 0" using False assms by simp
  have bx: "binade ?x \<le> 0"
  proof -
    have "pow2 1 = 2" by (simp add: pow2_def)
    moreover have "\<bar>?x\<bar> \<le> 1" using u by (simp only: abs_of_nonneg)
    ultimately have "\<bar>?x\<bar> < pow2 1" by linarith
    moreover have "pow2 (binade ?x) \<le> \<bar>?x\<bar>" using x0 by (rule binade_bounds)
    ultimately have "pow2 (binade ?x) < pow2 1" by linarith
    then
    show ?thesis by (simp add: pow2_less_iff)
  qed
  have "\<bar>?y - ?x\<bar> \<le> pow2 (max (binade ?x - (int 53 - 1)) (- 1074)) / 2"
    using x0 by (rule round_real_error)
  also have "\<dots> \<le> pow2 (- 52) / 2"
    using bx by (intro divide_right_mono pow2_mono) simp_all
  finally have e1: "\<bar>?y - ?x\<bar> \<le> 1 / 2 ^ 53" by (simp add: pow2_def)
  have v: "0 \<le> ?y" "?y \<le> 1" by (rule round_real_unit [OF u]; simp)+
  have e2: "\<bar>uvParam n i - ?y\<bar> \<le> 1 / 2 ^ 24"
  proof (cases "?y = 0")
    case True
    then show ?thesis by (simp add: uvParam_def round_real_def)
  next
    case False
    have by': "binade ?y \<le> 0"
    proof -
      have "pow2 1 = 2" by (simp add: pow2_def)
      moreover have "\<bar>?y\<bar> \<le> 1" using v by (simp only: abs_of_nonneg)
      ultimately have "\<bar>?y\<bar> < pow2 1" by linarith
      moreover have "pow2 (binade ?y) \<le> \<bar>?y\<bar>" using False by (rule binade_bounds)
      ultimately have "pow2 (binade ?y) < pow2 1" by linarith
      then show ?thesis by (simp add: pow2_less_iff)
    qed
    have "\<bar>uvParam n i - ?y\<bar> \<le> pow2 (max (binade ?y - (int 24 - 1)) (- 149)) / 2"
      unfolding uvParam_def using False by (rule round_real_error)
    also have "\<dots> \<le> pow2 (- 23) / 2"
      using by' by (intro divide_right_mono pow2_mono) simp_all
    finally show ?thesis by (simp add: pow2_def)
  qed
  have "\<bar>uvParam n i - ?x\<bar> \<le> \<bar>uvParam n i - ?y\<bar> + \<bar>?y - ?x\<bar>" by simp
  also have "\<dots> \<le> 1 / 2 ^ 24 + 1 / 2 ^ 53" using e1 e2 by linarith
  finally show ?thesis .
qed

lemma ropeUvs_sample:
  assumes "2 \<le> n" "n < 2 ^ 32" "i < n"
  shows "ropeUvs n ! (i * 4) = Fin (uvParam n i)"
    and "ropeUvs n ! (i * 4 + 1) = Fin 0"
    and "ropeUvs n ! (i * 4 + 2) = Fin (uvParam n i)"
    and "ropeUvs n ! (i * 4 + 3) = Fin 1"
  using ropeUvs_nth [OF assms(3), of 0] ropeUvs_nth [OF assms(3), of 1]
    ropeUvs_nth [OF assms(3), of 2] ropeUvs_nth [OF assms(3), of 3]
  by (simp_all add: uvQuad_def f32_uvAmount [OF assms] uvParam_first)

lemma ropeUvs_f32: "list_all (\<lambda>v. f32 v = v) (ropeUvs n)"
  by (auto simp: ropeUvs_def list_all_iff uvQuad_def f32_idem)

section \<open>Perpendiculars of length zero\<close>

lemma perpLengthOf_zero:
  assumes "js_sub (point_x np) (point_x lp) = Fin 0" "js_sub (point_y np) (point_y lp) = Fin 0"
  shows "perpLengthOf lp np = Fin 0"
  using assms by (simp add: perpLengthOf_def Let_def)

lemma perpOf_zero:
  assumes "js_sub (point_x np) (point_x lp) = Fin 0" "js_sub (point_y np) (point_y lp) = Fin 0"
  shows "perpOf h lp np = (NaN, NaN)"
  using assms by (simp add: perpOf_def perpLengthOf_def Let_def js_mul_NaN_left)

lemma vertexQuad_nan:
  "perpOf h lp np = (NaN, NaN) \<Longrightarrow> vertexQuad h lp p np = [NaN, NaN, NaN, NaN]"
  by (simp add: vertexQuad_def js_add_NaN_right js_sub_def)

lemma perpOf_same: "perpOf h p p = (NaN, NaN)"
proof -
  obtain a b where p: "p = Point a b" by (cases p)
  have "js_sub a a = Fin 0 \<or> js_sub a a = NaN" "js_sub b b = Fin 0 \<or> js_sub b b = NaN"
    by (rule js_sub_self)+
  then show ?thesis
    unfolding p by (auto simp: perpOf_def perpLengthOf_def Let_def js_mul_NaN_left)
qed

lemma nth_four_NaN: "c < 4 \<Longrightarrow> [NaN, NaN, NaN, NaN] ! c = NaN"
proof -
  assume "c < 4"
  then consider "c = 0" | "c = 1" | "c = 2" | "c = 3" by linarith
  then show ?thesis by cases simp_all
qed

section \<open>The operations of the rope\<close>

lemma refreshVertices_ready:
  assumes "points r = Some ps" "1 \<le> length ps" "length (vertexBuffer r) = length ps * 4"
  shows "refreshVertices r =
     Inr (r\<lparr>vertexBuffer := ropeVertices ps (tex_height (texture r)),
            events := events r @ [UpdateVertex (ropeVertices ps (tex_height (texture r)))]\<rparr>)"
proof -
  have ne: "ps \<noteq> []" using assms(2) by auto
  show ?thesis
    using assms(1) ne by (simp add: refreshVertices_def Let_def verticesLoop_closed [OF assms(3)])
qed

lemma refreshVertices_nth:
  assumes "points r = Some ps" "length ps * 4 \<le> length (vertexBuffer r)"
  shows "\<exists>r'. refreshVertices r = Inr r' \<and>
     length (vertexBuffer r') = length (vertexBuffer r) \<and>
     (\<forall>i < length ps. \<forall>c < 4.
        vertexBuffer r' ! (i * 4 + c) =
          vertexQuad (tex_height (texture r)) (lastPointAt ps i) (ps ! i) (nextPointAt ps i) ! c)"
proof (cases "length ps < 1")
  case True
  then show ?thesis using assms(1) by (simp add: refreshVertices_def)
next
  case False
  let ?vs = "verticesLoop ps (tex_height (texture r)) 0 (ps ! 0) (vertexBuffer r)"
  have "\<forall>i < length ps. \<forall>c < 4.
      ?vs ! (i * 4 + c) =
        vertexQuad (tex_height (texture r)) (lastPointAt ps i) (ps ! i) (nextPointAt ps i) ! c"
    using verticesLoop_nth [OF _ _ assms(2), of _ _ "tex_height (texture r)" 0 "ps ! 0"]
    by (simp add: lastPointAt_def)
  then show ?thesis
    using assms(1) False by (simp add: refreshVertices_def Let_def length_verticesLoop)
qed

lemma rope_refresh_ready:
  assumes "points r = Some ps" "1 \<le> length ps" "tex_uvs (texture r) \<noteq> None"
    and "consistent r \<or> length (vertexBuffer r) \<noteq> length ps * 4"
  shows "rope_refresh mul r =
     Inr (r\<lparr>vertexBuffer := ropeVertices ps (tex_height (texture r)),
            uvBuffer := mapUvs (mul (texture r)) (ropeUvs (length ps)),
            indexBuffer := ropeIndices (length ps),
            events := events r @
              [UpdateUv (ropeUvs (length ps)), UpdateIndex (ropeIndices (length ps)),
               MultiplyUvs, UpdateVertex (ropeVertices ps (tex_height (texture r)))]\<rparr>)"
proof (cases "length (vertexBuffer r) = length ps * 4")
  case True
  then have c: "consistent r" using assms(4) by simp
  obtain u where u: "tex_uvs (texture r) = Some u" using assms(3) by auto
  have ne: "ps \<noteq> []" using assms(2) by auto
  have keep: "real (length (vertexBuffer r)) / 4 = real (length ps)"
    using True by simp
  have lu: "length (uvBuffer r) = length ps * 4" and li: "length (indexBuffer r) = length ps * 2"
    using c True by (simp_all add: consistent_def)
  have loop: "refreshLoop (Suc 0) (length ps)
      ((uvBuffer r)[0 := Fin 0, Suc 0 := Fin 0, 2 := Fin 0, 3 := Fin 1])
      ((indexBuffer r)[0 := 0, Suc 0 := 1]) = (ropeUvs (length ps), ropeIndices (length ps))"
    using refreshLoop_closed [OF assms(2) lu li] by simp
  show ?thesis
    using assms(1) u ne keep
    by (simp add: rope_refresh_def Let_def loop multiplyUvs_def refreshVertices_def
        verticesLoop_closed [OF True])
next
  case False
  obtain u where u: "tex_uvs (texture r) = Some u" using assms(3) by auto
  have ne: "ps \<noteq> []" using assms(2) by auto
  have "real (length (vertexBuffer r)) \<noteq> real (length ps * 4)"
    using False by (simp only: of_nat_eq_iff) simp
  then have realloc: "real (length (vertexBuffer r)) / 4 \<noteq> real (length ps)"
    by simp
  have loop: "refreshLoop (Suc 0) (length ps)
      ((replicate (length ps * 4) (Fin 0))[0 := Fin 0, Suc 0 := Fin 0, 2 := Fin 0, 3 := Fin 1])
      ((replicate (length ps * 2) 0)[0 := 0, Suc 0 := 1]) =
      (ropeUvs (length ps), ropeIndices (length ps))"
    using refreshLoop_closed [OF assms(2), of "replicate (length ps * 4) (Fin 0)"
          "replicate (length ps * 2) 0"] by simp
  have vl: "verticesLoop ps (tex_height (texture r)) 0 (ps ! 0) (replicate (length ps * 4) (Fin 0)) =
      ropeVertices ps (tex_height (texture r))"
    by (rule verticesLoop_closed) simp
  show ?thesis
    using assms(1) u ne realloc
    by (simp add: rope_refresh_def Let_def loop multiplyUvs_def refreshVertices_def vl)
qed

lemma rope_refresh_noop:
  "points r = None \<or> points r = Some [] \<or> tex_uvs (texture r) = None \<Longrightarrow>
   rope_refresh mul r = Inr r"
  by (auto simp: rope_refresh_def split: option.splits)

lemma consistent_fresh:
  "consistent \<lparr>texture = tex, points = p,
     vertexBuffer = replicate (n * 4) (Fin 0), uvBuffer = replicate (n * 4) (Fin 0),
     indexBuffer = replicate (n * 2) 0, autoUpdate = au, events = ev\<rparr>"
  by (simp add: consistent_def)

lemma construct_cases:
  "construct mul au tex ps =
     (if 1 \<le> length ps \<and> tex_uvs tex \<noteq> None
      then Inr \<lparr>texture = tex, points = Some ps,
                vertexBuffer = ropeVertices ps (tex_height tex),
                uvBuffer = mapUvs (mul tex) (ropeUvs (length ps)),
                indexBuffer = ropeIndices (length ps),
                autoUpdate = au,
                events = [UpdateUv (ropeUvs (length ps)), UpdateIndex (ropeIndices (length ps)),
                          MultiplyUvs, UpdateVertex (ropeVertices ps (tex_height tex))]\<rparr>
      else Inr \<lparr>texture = tex, points = Some ps,
                vertexBuffer = replicate (length ps * 4) (Fin 0),
                uvBuffer = replicate (length ps * 4) (Fin 0),
                indexBuffer = replicate (length ps * 2) 0,
                autoUpdate = au, events = []\<rparr>)"
proof (cases "1 \<le> length ps \<and> tex_uvs tex \<noteq> None")
  case True
  let ?r = "\<lparr>texture = tex, points = Some ps,
        vertexBuffer = replicate (length ps * 4) (Fin 0),
        uvBuffer = replicate (length ps * 4) (Fin 0),
        indexBuffer = replicate (length ps * 2) 0,
        autoUpdate = au, events = []\<rparr>"
  have "rope_refresh mul ?r = Inr (?r\<lparr>vertexBuffer := ropeVertices ps (tex_height (texture ?r)),
            uvBuffer := mapUvs (mul (texture ?r)) (ropeUvs (length ps)),
            indexBuffer := ropeIndices (length ps),
            events := events ?r @
              [UpdateUv (ropeUvs (length ps)), UpdateIndex (ropeIndices (length ps)),
               MultiplyUvs, UpdateVertex (ropeVertices ps (tex_height (texture ?r)))]\<rparr>)"
    using True by (intro rope_refresh_ready) (simp_all add: consistent_fresh)
  then show ?thesis
    using True by (simp add: construct_def mesh_refresh_def)
next
  case False
  then show ?thesis
    by (cases ps) (auto simp: construct_def mesh_refresh_def rope_refresh_def)
qed

subsection \<open>The invariant of the buffers\<close>

text \<open>
  The constructor establishes \<open>consistent\<close>, and every operation keeps it; replacing the
  point sequence does not touch the buffers.
\<close>

lemma consistent_points: "consistent (r\<lparr>points := p\<rparr>) = consistent r"
  by (simp add: consistent_def)

lemma consistent_construct: "construct mul au tex ps = Inr r \<Longrightarrow> consistent r"
  by (auto simp: construct_cases consistent_def length_ropeVertices length_mapUvs length_ropeUvs
      length_ropeIndices split: if_splits)

lemma consistent_refreshVertices:
  "consistent r \<Longrightarrow> refreshVertices r = Inr r' \<Longrightarrow> consistent r'"
  by (auto simp: refreshVertices_def consistent_def Let_def length_verticesLoop
      split: option.splits if_splits)

lemma consistent_rope_refresh:
  assumes "consistent r" "rope_refresh mul r = Inr r'"
  shows "consistent r'"
proof (cases "points r = None \<or> points r = Some [] \<or> tex_uvs (texture r) = None")
  case True
  then show ?thesis using assms by (simp add: rope_refresh_noop)
next
  case False
  then obtain ps where ps: "points r = Some ps" "1 \<le> length ps"
    and ready: "tex_uvs (texture r) \<noteq> None"
    by (cases "points r") (auto simp: Suc_le_eq)
  have "rope_refresh mul r =
     Inr (r\<lparr>vertexBuffer := ropeVertices ps (tex_height (texture r)),
            uvBuffer := mapUvs (mul (texture r)) (ropeUvs (length ps)),
            indexBuffer := ropeIndices (length ps),
            events := events r @
              [UpdateUv (ropeUvs (length ps)), UpdateIndex (ropeIndices (length ps)),
               MultiplyUvs, UpdateVertex (ropeVertices ps (tex_height (texture r)))]\<rparr>)"
    using ps ready assms(1) by (intro rope_refresh_ready) simp_all
  then show ?thesis
    using assms(2)
    by (auto simp: consistent_def length_ropeVertices length_mapUvs length_ropeUvs
        length_ropeIndices)
qed

lemma consistent_updateTransform:
  assumes "consistent r" "updateTransform r = Inr r'"
  shows "consistent r'"
proof (cases "autoUpdate r")
  case True
  then obtain rv where rv: "refreshVertices r = Inr rv"
    and r': "r' = rv\<lparr>events := events rv @ [ContainerUpdateTransform]\<rparr>"
    using assms(2) by (auto simp: updateTransform_def split: sum.splits)
  have "consistent rv" using assms(1) rv by (rule consistent_refreshVertices)
  then show ?thesis by (simp add: r' consistent_def)
next
  case False
  then show ?thesis using assms by (auto simp: updateTransform_def consistent_def)
qed

section \<open>The concrete inputs, evaluated\<close>

lemma ropeVertices_points3:
  "ropeVertices points3 (Fin 10) =
     [Fin 0, Fin (- 5), Fin 0, Fin 5, Fin 10, Fin (- 5), Fin 10, Fin 5,
      Fin 20, Fin (- 5), Fin 20, Fin 5]"
  by (simp add: ropeVertices_def points3_def upt_3 vertexQuad_def perpOf_def perpLengthOf_def lastPointAt_def
      nextPointAt_def js_sub_def sqrt_100 sqrt_400 Let_def)

lemma ropeUvs_3:
  "ropeUvs 3 = [Fin 0, Fin 0, Fin 0, Fin 1, Fin (1 / 2), Fin 0, Fin (1 / 2), Fin 1,
     Fin 1, Fin 0, Fin 1, Fin 1]"
  by (simp add: ropeUvs_def upt_3 uvQuad_def uvAmount_def js_sub_def js_of_nat_def)

lemma ropeIndices_3: "ropeIndices 3 = [0, 1, 2, 3, 4, 5]"
  by (simp add: ropeIndices_def upt_6)

lemma ropeUvs_1: "ropeUvs 1 = [Fin 0, Fin 0, Fin 0, Fin 1]"
  by (simp add: ropeUvs_def)

lemma ropeIndices_1: "ropeIndices 1 = [0, 1]"
  by (simp add: ropeIndices_def upt_2)

lemma ropeUvs_2: "ropeUvs 2 = [Fin 0, Fin 0, Fin 0, Fin 1, Fin 1, Fin 0, Fin 1, Fin 1]"
  by (simp add: ropeUvs_def upt_2 uvQuad_def uvAmount_def js_sub_def js_of_nat_def)

lemma ropeIndices_2: "ropeIndices 2 = [0, 1, 2, 3]"
  by (simp add: ropeIndices_def upt_4)

lemma ropeVertices_points2:
  "ropeVertices points2 (Fin 10) =
     [Fin 0, Fin (- 5), Fin 0, Fin 5, Fin 10, Fin (- 5), Fin 10, Fin 5]"
  by (simp add: ropeVertices_def points2_def upt_2 vertexQuad_def perpOf_def perpLengthOf_def lastPointAt_def
      nextPointAt_def js_sub_def sqrt_100 Let_def)


lemma construct_rope3: "construct idMul True texReady points3 = Inr rope3"
proof -
  have l: "length points3 = 3" by (simp add: points3_def)
  have t: "tex_uvs texReady \<noteq> None" "tex_height texReady = Fin 10"
    by (simp_all add: texReady_def)
  show ?thesis
    using t by (simp add: construct_cases l idMul_def ropeVertices_points3 ropeUvs_3 ropeIndices_3
        rope3_def)
qed

lemma consistent_rope3: "consistent rope3"
  by (simp add: consistent_def rope3_def)

lemma construct_ropeHalf: "construct halfMul True texReady points2 = Inr ropeHalf"
proof -
  have l: "length points2 = 2" by (simp add: points2_def)
  have t: "tex_uvs texReady \<noteq> None" "tex_height texReady = Fin 10"
    by (simp_all add: texReady_def)
  show ?thesis
    using t by (simp add: construct_cases l halfMul_def ropeVertices_points2 ropeUvs_2
        ropeIndices_2 ropeHalf_def)
qed

lemma ropeVertices_points4:
  "ropeVertices points4 (Fin 10) =
     [Fin 0, Fin (- 5), Fin 0, Fin 5, Fin 10, Fin (- 5), Fin 10, Fin 5,
      Fin 20, Fin (- 5), Fin 20, Fin 5, Fin 30, Fin (- 5), Fin 30, Fin 5]"
  by (simp add: ropeVertices_def points4_def upt_4 vertexQuad_def perpOf_def perpLengthOf_def
      lastPointAt_def nextPointAt_def js_sub_def sqrt_100 sqrt_400 Let_def)

lemma ropeUvs_4:
  "ropeUvs 4 =
     [Fin 0, Fin 0, Fin 0, Fin 1,
      Fin (11184811 / 33554432), Fin 0, Fin (11184811 / 33554432), Fin 1,
      Fin (11184811 / 16777216), Fin 0, Fin (11184811 / 16777216), Fin 1,
      Fin 1, Fin 0, Fin 1, Fin 1]"
  by (simp add: ropeUvs_def upt_4 uvQuad_def uvAmount_def js_sub_def js_of_nat_def
      fround64_third fround32_third fround64_two_thirds fround32_two_thirds)

lemma ropeIndices_4: "ropeIndices 4 = [0, 1, 2, 3, 4, 5, 6, 7]"
  by (simp add: ropeIndices_def upt_8)

lemma construct_rope4: "construct idMul True texReady points4 = Inr rope4"
proof -
  have l: "length points4 = 4" by (simp add: points4_def)
  have t: "tex_uvs texReady \<noteq> None" "tex_height texReady = Fin 10"
    by (simp_all add: texReady_def)
  have "idMul texReady = (\<lambda>p. p)" by (simp add: fun_eq_iff idMul_def)
  then have m: "mapUvs (idMul texReady) (ropeUvs 4) = ropeUvs 4"
    by (simp add: mapUvs_id_f32 [OF ropeUvs_f32])
  have "construct idMul True texReady points4 =
      Inr \<lparr>texture = texReady, points = Some points4,
           vertexBuffer = ropeVertices points4 (Fin 10),
           uvBuffer = ropeUvs 4,
           indexBuffer = ropeIndices 4,
           autoUpdate = True,
           events = [UpdateUv (ropeUvs 4), UpdateIndex (ropeIndices 4), MultiplyUvs,
                     UpdateVertex (ropeVertices points4 (Fin 10))]\<rparr>"
    using t by (simp add: construct_cases l m)
  then show ?thesis
    by (simp add: ropeVertices_points4 ropeUvs_4 ropeIndices_4 rope4_def)
qed

lemma refreshVertices_ropeDup:
  "refreshVertices ropeDup =
     Inr (ropeDup\<lparr>vertexBuffer :=
            [NaN, NaN, NaN, NaN, Fin 0, Fin (- 5), Fin 0, Fin 5, Fin 10, Fin (- 5), Fin 10, Fin 5],
          events :=
            [UpdateVertex
              [NaN, NaN, NaN, NaN, Fin 0, Fin (- 5), Fin 0, Fin 5,
               Fin 10, Fin (- 5), Fin 10, Fin 5]]\<rparr>)"
proof -
  have p: "points ropeDup = Some pointsDup" "1 \<le> length pointsDup"
    "length (vertexBuffer ropeDup) = length pointsDup * 4"
    by (simp_all add: ropeDup_def pointsDup_def)
  have "ropeVertices pointsDup (Fin 10) =
      [NaN, NaN, NaN, NaN, Fin 0, Fin (- 5), Fin 0, Fin 5, Fin 10, Fin (- 5), Fin 10, Fin 5]"
    by (simp add: ropeVertices_def pointsDup_def upt_3 vertexQuad_def perpOf_def perpLengthOf_def lastPointAt_def
        nextPointAt_def js_sub_def sqrt_100 Let_def)
  then show ?thesis
    unfolding refreshVertices_ready [OF p]
    by (simp add: ropeDup_def texReady_def)
qed

section \<open>The frames of a sprite sheet\<close>

lemma frameLoop_step:
  "wellFormed fd \<Longrightarrow>
   frameLoop base ((i, fd) # rest) cache = frameLoop base rest (cacheStep base (i, fd) cache)"
  by (auto simp: cacheStep_def frameTexture_def wellFormed_def Let_def split: option.splits)

lemma cacheStep_same:
  "cacheStep base (name, fd) cache name =
     (case frameTexture base fd of None \<Rightarrow> cache name | Some t \<Rightarrow> Some t)"
  by (simp add: cacheStep_def split: option.splits)

lemma cacheStep_other: "fst e \<noteq> name \<Longrightarrow> cacheStep base e cache name = cache name"
  by (simp add: cacheStep_def split: option.splits)

lemma fold_cache_notin:
  "name \<notin> fst ` set fds \<Longrightarrow> fold (cacheStep base) fds cache name = cache name"
  by (induction fds arbitrary: cache) (auto simp: cacheStep_other)

lemma fold_cache_in:
  "distinct (map fst fds) \<Longrightarrow> (name, fd) \<in> set fds \<Longrightarrow>
   fold (cacheStep base) fds cache name =
     (case frameTexture base fd of None \<Rightarrow> cache name | Some t \<Rightarrow> Some t)"
proof (induction fds arbitrary: cache)
  case Nil
  then show ?case by simp
next
  case (Cons e fds)
  show ?case
  proof (cases "e = (name, fd)")
    case True
    then have "name \<notin> fst ` set fds" using Cons.prems(1) by auto
    then have "fold (cacheStep base) (e # fds) cache name = cacheStep base e cache name"
      by (simp add: fold_cache_notin)
    then show ?thesis
      using True by (simp add: cacheStep_same)
  next
    case False
    then have mem: "(name, fd) \<in> set fds" using Cons.prems(2) by simp
    then have "fst e \<noteq> name" using Cons.prems(1) by (auto simp: image_iff)
    then have "cacheStep base e cache name = cache name"
      by (rule cacheStep_other)
    then show ?thesis
      using Cons.IH [OF _ mem, of "cacheStep base e cache"] Cons.prems(1)
      by (simp split: option.splits)
  qed
qed

lemma frameLoop_stop:
  "\<not> wellFormed fd \<Longrightarrow> frameLoop base ((i, fd) # rest) cache = (Some TypeError, cache)"
  by (auto simp: wellFormed_def Let_def split: option.splits if_splits)

lemma frameLoop_processed:
  "frameLoop base fds cache =
     (if list_all (\<lambda>e. wellFormed (snd e)) fds then None else Some TypeError,
      fold (cacheStep base) (processed fds) cache)"
proof (induction fds arbitrary: cache)
  case Nil
  then show ?case by (simp add: processed_def)
next
  case (Cons e fds)
  obtain i fd where e: "e = (i, fd)" by (cases e)
  show ?case
  proof (cases "wellFormed fd")
    case True
    show ?thesis
      unfolding e frameLoop_step [OF True] Cons.IH using True by (simp add: processed_def)
  next
    case False
    show ?thesis
      unfolding e frameLoop_stop [OF False] using False by (simp add: processed_def)
  qed
qed

lemma processed_all: "list_all (\<lambda>e. wellFormed (snd e)) fds \<Longrightarrow> processed fds = fds"
  by (simp add: processed_def list_all_iff)

lemma processed_split:
  "list_all (\<lambda>e. wellFormed (snd e)) pre \<Longrightarrow> \<not> wellFormed fd \<Longrightarrow>
   processed (pre @ (name, fd) # post) = pre"
  by (simp add: processed_def list_all_iff takeWhile_append2)

lemma distinct_processed: "distinct (map fst fds) \<Longrightarrow> distinct (map fst (processed fds))"
proof -
  assume d: "distinct (map fst fds)"
  have "map fst (processed fds) = take (length (processed fds)) (map fst fds)"
    unfolding processed_def by (subst takeWhile_eq_take) (simp add: take_map)
  then show ?thesis using d by (simp add: distinct_take)
qed

lemma onJSONLoaded_skeleton:
  "frames json = None \<Longrightarrow> bones json \<Longrightarrow>
   onJSONLoaded ld (Some json) cache animCache =
     (None,
      if animCache (url ld) then onLoaded ld
      else ld\<lparr>loader_events := loader_events ld @ [AtlasLoad (atlasPath (url ld))]\<rparr>,
      cache)"
  by (simp add: onJSONLoaded_def)

lemma atlasPath_loader0: "atlasPath (url loader0) = ''img/sheet.atlas''"
  by (simp add: atlasPath_def substr0_def loader0_def Let_def)

section \<open>The claims\<close>




text \<open>
  C2, as amended.  For a point sequence of length \<open>N\<close> with \<open>2 \<le> N < 2 ^ 32\<close> and a
  ready texture, the UV data that the full refresh writes (and signals to the renderer)
  holds for point \<open>i\<close> the two samples \<open>(u, 0)\<close> and \<open>(u, 1)\<close>, where \<open>u\<close> is the
  quotient \<open>i/(N-1)\<close> rounded to binary64 by the division and then to binary32 by the
  store into the \<^verbatim>\<open>Float32Array\<close>.  This \<open>u\<close> is exactly 0 at the first point and
  exactly 1 at the last, does not decrease with \<open>i\<close>, and differs from \<open>i/(N-1)\<close> by at
  most \<open>1 / 2 ^ 24 + 1 / 2 ^ 53\<close>.  When the full refresh returns, the UV buffer holds the
  image of these samples under \<^verbatim>\<open>multiplyUvs()\<close>: the samples themselves when the
  texture's multiplier keeps every sample.
\<close>

theorem C2_uv_samples:
  assumes "points r = Some ps" "2 \<le> length ps" "length ps < 2 ^ 32"
    and "tex_uvs (texture r) \<noteq> None" "consistent r"
  shows "\<exists>r' uvs idx.
     rope_refresh mul r = Inr r' \<and>
     events r' = events r @
       [UpdateUv uvs, UpdateIndex idx, MultiplyUvs, UpdateVertex (vertexBuffer r')] \<and>
     uvBuffer r' = mapUvs (mul (texture r)) uvs \<and>
     ((\<forall>p. mul (texture r) p = p) \<longrightarrow> uvBuffer r' = uvs) \<and>
     length uvs = 4 * length ps \<and>
     (\<forall>i < length ps.
        uvs ! (i * 4) = f32 (fround64 (real i / (real (length ps) - 1))) \<and>
        uvs ! (i * 4) = Fin (uvParam (length ps) i) \<and>
        \<bar>uvParam (length ps) i - real i / (real (length ps) - 1)\<bar> \<le> 1 / 2 ^ 24 + 1 / 2 ^ 53 \<and>
        uvs ! (i * 4 + 1) = Fin 0 \<and>
        uvs ! (i * 4 + 2) = uvs ! (i * 4) \<and>
        uvs ! (i * 4 + 3) = Fin 1) \<and>
     uvs ! 0 = Fin 0 \<and>
     uvs ! ((length ps - 1) * 4) = Fin 1 \<and>
     (\<forall>i j. i \<le> j \<and> j < length ps \<longrightarrow> js_le (uvs ! (i * 4)) (uvs ! (j * 4)))"
proof -
  let ?n = "length ps"
  have one: "1 \<le> ?n" using assms(2) by simp
  let ?r' = "r\<lparr>vertexBuffer := ropeVertices ps (tex_height (texture r)),
            uvBuffer := mapUvs (mul (texture r)) (ropeUvs ?n),
            indexBuffer := ropeIndices ?n,
            events := events r @
              [UpdateUv (ropeUvs ?n), UpdateIndex (ropeIndices ?n),
               MultiplyUvs, UpdateVertex (ropeVertices ps (tex_height (texture r)))]\<rparr>"
  have ref: "rope_refresh mul r = Inr ?r'"
    using assms(1) one assms(4) assms(5) by (intro rope_refresh_ready) simp_all
  have idm: "(\<forall>p. mul (texture r) p = p) \<longrightarrow>
      mapUvs (mul (texture r)) (ropeUvs ?n) = ropeUvs ?n"
  proof
    assume "\<forall>p. mul (texture r) p = p"
    then have "mul (texture r) = (\<lambda>p. p)" by (simp add: fun_eq_iff)
    then show "mapUvs (mul (texture r)) (ropeUvs ?n) = ropeUvs ?n"
      by (simp add: mapUvs_id_f32 [OF ropeUvs_f32])
  qed
  have samples: "\<forall>i < ?n.
        ropeUvs ?n ! (i * 4) = f32 (fround64 (real i / (real ?n - 1))) \<and>
        ropeUvs ?n ! (i * 4) = Fin (uvParam ?n i) \<and>
        \<bar>uvParam ?n i - real i / (real ?n - 1)\<bar> \<le> 1 / 2 ^ 24 + 1 / 2 ^ 53 \<and>
        ropeUvs ?n ! (i * 4 + 1) = Fin 0 \<and>
        ropeUvs ?n ! (i * 4 + 2) = ropeUvs ?n ! (i * 4) \<and>
        ropeUvs ?n ! (i * 4 + 3) = Fin 1"
  proof (intro allI impI)
    fix i assume i: "i < ?n"
    show "ropeUvs ?n ! (i * 4) = f32 (fround64 (real i / (real ?n - 1))) \<and>
        ropeUvs ?n ! (i * 4) = Fin (uvParam ?n i) \<and>
        \<bar>uvParam ?n i - real i / (real ?n - 1)\<bar> \<le> 1 / 2 ^ 24 + 1 / 2 ^ 53 \<and>
        ropeUvs ?n ! (i * 4 + 1) = Fin 0 \<and>
        ropeUvs ?n ! (i * 4 + 2) = ropeUvs ?n ! (i * 4) \<and>
        ropeUvs ?n ! (i * 4 + 3) = Fin 1"
      using ropeUvs_sample [OF assms(2,3) i] f32_fround64_uv [OF assms(2,3) i]
        uvParam_near [OF assms(2) i]
      by simp
  qed
  have "0 < ?n" using assms(2) by linarith
  from ropeUvs_sample(1) [OF assms(2,3) this] have first: "ropeUvs ?n ! 0 = Fin 0"
    by (simp add: uvParam_first)
  have "?n - 1 < ?n" using assms(2) by linarith
  from ropeUvs_sample(1) [OF assms(2,3) this]
  have last: "ropeUvs ?n ! ((?n - 1) * 4) = Fin 1"
    using uvParam_last [OF assms(2)] by simp
  have mono: "\<forall>i j. i \<le> j \<and> j < ?n \<longrightarrow> js_le (ropeUvs ?n ! (i * 4)) (ropeUvs ?n ! (j * 4))"
  proof (intro allI impI)
    fix i j assume ij: "i \<le> j \<and> j < ?n"
    then have i: "i < ?n" and j: "j < ?n" and le: "i \<le> j" by simp_all
    show "js_le (ropeUvs ?n ! (i * 4)) (ropeUvs ?n ! (j * 4))"
      using uvParam_mono [OF assms(2) le]
      by (simp add: ropeUvs_sample(1) [OF assms(2,3) i] ropeUvs_sample(1) [OF assms(2,3) j]
          js_le_def not_less)
  qed
  have ev: "events ?r' = events r @
      [UpdateUv (ropeUvs ?n), UpdateIndex (ropeIndices ?n), MultiplyUvs,
       UpdateVertex (vertexBuffer ?r')]"
    by simp
  have ub: "uvBuffer ?r' = mapUvs (mul (texture r)) (ropeUvs ?n)" by simp
  have kept: "(\<forall>p. mul (texture r) p = p) \<longrightarrow> uvBuffer ?r' = ropeUvs ?n"
    using idm by simp
  have len: "length (ropeUvs ?n) = 4 * ?n" by (simp add: length_ropeUvs)
  show ?thesis
    by (rule exI [of _ ?r'], rule exI [of _ "ropeUvs ?n"], rule exI [of _ "ropeIndices ?n"],
        intro conjI)
      (rule ref ev ub kept len samples first last mono)+
qed

theorem C2_uv_samples_witness:
  "points rope3 = Some points3 \<and> 2 \<le> length points3 \<and> length points3 < 2 ^ 32 \<and>
   tex_uvs (texture rope3) \<noteq> None \<and> consistent rope3 \<and>
   (\<exists>r' uvs idx.
     rope_refresh idMul rope3 = Inr r' \<and>
     events r' = events rope3 @
       [UpdateUv uvs, UpdateIndex idx, MultiplyUvs, UpdateVertex (vertexBuffer r')] \<and>
     uvBuffer r' = mapUvs (idMul (texture rope3)) uvs \<and>
     ((\<forall>p. idMul (texture rope3) p = p) \<longrightarrow> uvBuffer r' = uvs) \<and>
     length uvs = 4 * length points3 \<and>
     (\<forall>i < length points3.
        uvs ! (i * 4) = f32 (fround64 (real i / (real (length points3) - 1))) \<and>
        uvs ! (i * 4) = Fin (uvParam (length points3) i) \<and>
        \<bar>uvParam (length points3) i - real i / (real (length points3) - 1)\<bar>
          \<le> 1 / 2 ^ 24 + 1 / 2 ^ 53 \<and>
        uvs ! (i * 4 + 1) = Fin 0 \<and>
        uvs ! (i * 4 + 2) = uvs ! (i * 4) \<and>
        uvs ! (i * 4 + 3) = Fin 1) \<and>
     uvs ! 0 = Fin 0 \<and>
     uvs ! ((length points3 - 1) * 4) = Fin 1 \<and>
     (\<forall>i j. i \<le> j \<and> j < length points3 \<longrightarrow> js_le (uvs ! (i * 4)) (uvs ! (j * 4))))"
proof -
  have h: "points rope3 = Some points3" "2 \<le> length points3" "length points3 < 2 ^ 32"
    "tex_uvs (texture rope3) \<noteq> None"
    by (simp_all add: rope3_def points3_def texReady_def)
  show ?thesis
    using h consistent_rope3 C2_uv_samples [OF h consistent_rope3, of idMul]
    by (intro conjI)
qed

text \<open>
  C2 as stated fails in two ways.  With four points the parameter of the second point is
  not \<open>1/3\<close>: the UV buffer is a \<^verbatim>\<open>Float32Array\<close> and holds \<open>11184811 / 2 ^ 25\<close>
  (0.3333333432674408), in the data signalled and in the buffer after the refresh.  And with
  a multiplier that halves every sample, the buffer holds after the refresh \<open>1/2\<close> for the
  last of two points, not \<open>1\<close>.
\<close>

theorem C2_counterexample:
  "construct idMul True texReady points4 = Inr rope4 \<and>
   length points4 = 4 \<and>
   events rope4 ! 0 = UpdateUv (uvBuffer rope4) \<and>
   uvBuffer rope4 ! (1 * 4) = Fin (11184811 / 33554432) \<and>
   uvBuffer rope4 ! (1 * 4) \<noteq> Fin (1 / (4 - 1)) \<and>
   construct halfMul True texReady points2 = Inr ropeHalf \<and>
   length points2 = 2 \<and>
   uvBuffer ropeHalf ! (1 * 4) = Fin (1 / 2) \<and>
   uvBuffer ropeHalf ! (1 * 4) \<noteq> Fin (1 / (2 - 1))"
  by (simp add: construct_rope4 construct_ropeHalf)
    (simp add: rope4_def ropeHalf_def points4_def points2_def)

text \<open>
  C3.  The scenario of the specification: the points \<open>(0,0)\<close>, \<open>(10,0)\<close>, \<open>(20,0)\<close>
  and a ready texture of height 10 whose multiplier keeps every sample.  Each point's two
  vertices lie at the offsets \<open>(0, -5)\<close> and \<open>(0, +5)\<close> from the point (in this order),
  the UVs are \<open>(0,0), (0,1), (0.5,0), (0.5,1), (1,0), (1,1)\<close> and the indices
  \<open>0, 1, 2, 3, 4, 5\<close>, after the construction and again after a further full refresh.
\<close>

theorem C3_scenario:
  "construct idMul True texReady points3 = Inr rope3 \<and>
   points rope3 = Some [Point (Fin 0) (Fin 0), Point (Fin 10) (Fin 0), Point (Fin 20) (Fin 0)] \<and>
   tex_height (texture rope3) = Fin 10 \<and>
   vertexBuffer rope3 =
     [Fin 0, Fin (0 - 5), Fin 0, Fin (0 + 5),
      Fin 10, Fin (0 - 5), Fin 10, Fin (0 + 5),
      Fin 20, Fin (0 - 5), Fin 20, Fin (0 + 5)] \<and>
   uvBuffer rope3 =
     [Fin 0, Fin 0, Fin 0, Fin 1, Fin 0.5, Fin 0, Fin 0.5, Fin 1, Fin 1, Fin 0, Fin 1, Fin 1] \<and>
   indexBuffer rope3 = [0, 1, 2, 3, 4, 5] \<and>
   rope_refresh idMul rope3 =
     Inr (rope3\<lparr>events := events rope3 @
       [UpdateUv (uvBuffer rope3), UpdateIndex (indexBuffer rope3), MultiplyUvs,
        UpdateVertex (vertexBuffer rope3)]\<rparr>)"
proof -
  have l: "length points3 = 3" by (simp add: points3_def)
  have p: "points rope3 = Some points3" "1 \<le> length points3"
    "tex_uvs (texture rope3) \<noteq> None"
    by (simp_all add: rope3_def points3_def texReady_def)
  have "rope_refresh idMul rope3 =
     Inr (rope3\<lparr>events := events rope3 @
       [UpdateUv (uvBuffer rope3), UpdateIndex (indexBuffer rope3), MultiplyUvs,
        UpdateVertex (vertexBuffer rope3)]\<rparr>)"
    unfolding rope_refresh_ready [OF p, of idMul, OF disjI1, OF consistent_rope3]
    by (simp add: l idMul_def ropeVertices_points3 ropeUvs_3 ropeIndices_3 rope3_def texReady_def)
  then show ?thesis
    by (simp add: construct_rope3) (simp add: rope3_def points3_def texReady_def)
qed

text \<open>
  C4.  When the texture has no UV metadata, the full refresh returns the state it was given:
  the three buffers keep their contents and lengths, and the record of calls gains no
  buffer-update signal.
\<close>

theorem C4_not_ready_noop:
  "tex_uvs (texture r) = None \<Longrightarrow> rope_refresh mul r = Inr r"
  by (simp add: rope_refresh_def split: option.splits)

theorem C4_not_ready_noop_witness:
  "tex_uvs (texture ropeStale) = None \<and> rope_refresh idMul ropeStale = Inr ropeStale \<and>
   vertexBuffer ropeStale = [Fin 1, Fin 2, Fin 3, Fin 4] \<and> events ropeStale = []"
proof -
  have h: "tex_uvs (texture ropeStale) = None" by (simp add: ropeStale_def)
  show ?thesis
    using h C4_not_ready_noop [OF h, of idMul] by (simp add: ropeStale_def)
qed

text \<open>
  C5, as amended.  For a sequence of exactly one point and a ready texture, the full
  refresh and \<open>refreshVertices\<close> both return without raising; the UV data written for the
  point is \<open>(0,0), (0,1)\<close>; and the loop of the full refresh, where the UV parameter is
  \<^verbatim>\<open>i / (total - 1)\<close>, performs no iteration.
\<close>

theorem C5_single_point:
  assumes "points r = Some [p]" "tex_uvs (texture r) \<noteq> None" "consistent r"
  shows "\<exists>r' rv.
     rope_refresh mul r = Inr r' \<and>
     refreshVertices r = Inr rv \<and>
     events r' = events r @
       [UpdateUv [Fin 0, Fin 0, Fin 0, Fin 1], UpdateIndex [0, 1], MultiplyUvs,
        UpdateVertex (vertexBuffer r')] \<and>
     uvBuffer r' = mapUvs (mul (texture r)) [Fin 0, Fin 0, Fin 0, Fin 1] \<and>
     refreshLoop 1 (length [p]) uvs idx = (uvs, idx)"
proof -
  have "rope_refresh mul r =
     Inr (r\<lparr>vertexBuffer := ropeVertices [p] (tex_height (texture r)),
            uvBuffer := mapUvs (mul (texture r)) (ropeUvs (length [p])),
            indexBuffer := ropeIndices (length [p]),
            events := events r @
              [UpdateUv (ropeUvs (length [p])), UpdateIndex (ropeIndices (length [p])),
               MultiplyUvs, UpdateVertex (ropeVertices [p] (tex_height (texture r)))]\<rparr>)"
    using assms by (intro rope_refresh_ready) simp_all
  moreover have "\<exists>rv. refreshVertices r = Inr rv"
    using assms(1) by (simp add: refreshVertices_def Let_def)
  moreover have "refreshLoop 1 (length [p]) uvs idx = (uvs, idx)"
    by (simp add: refreshLoop_stop)
  ultimately show ?thesis
    using ropeUvs_1 ropeIndices_1 by auto
qed

theorem C5_single_point_witness:
  "points ropeOne = Some [Point (Fin 0) (Fin 0)] \<and> tex_uvs (texture ropeOne) \<noteq> None \<and>
   consistent ropeOne \<and>
   (\<exists>r' rv.
     rope_refresh idMul ropeOne = Inr r' \<and>
     refreshVertices ropeOne = Inr rv \<and>
     events r' = events ropeOne @
       [UpdateUv [Fin 0, Fin 0, Fin 0, Fin 1], UpdateIndex [0, 1], MultiplyUvs,
        UpdateVertex (vertexBuffer r')] \<and>
     uvBuffer r' = mapUvs (idMul (texture ropeOne)) [Fin 0, Fin 0, Fin 0, Fin 1] \<and>
     refreshLoop 1 (length [Point (Fin 0) (Fin 0)]) [Fin 7, Fin 7, Fin 7, Fin 7] [7, 7] =
       ([Fin 7, Fin 7, Fin 7, Fin 7], [7, 7]))"
proof -
  have h: "points ropeOne = Some [Point (Fin 0) (Fin 0)]" "tex_uvs (texture ropeOne) \<noteq> None"
    "consistent ropeOne"
    by (simp_all add: ropeOne_def texReady_def consistent_def)
  show ?thesis
    using h C5_single_point [OF h, of idMul "[Fin 7, Fin 7, Fin 7, Fin 7]" "[7, 7]"] by blast
qed

text \<open>
  C5 as stated fails in \<open>refreshVertices\<close>: for one point, line 142 computes the taper
  ratio from \<^verbatim>\<open>i / (total - 1)\<close> with \<^verbatim>\<open>i = 0\<close> and \<^verbatim>\<open>total - 1 = 0\<close>.  The
  quotient is NaN, the ratio is NaN, and nothing reads it.
\<close>

theorem C5_counterexample:
  "length [Point (Fin 0) (Fin 0)] = 1 \<and>
   js_sub (js_of_nat (length [Point (Fin 0) (Fin 0)])) (Fin 1) = Fin 0 \<and>
   js_div (js_of_nat 0) (js_sub (js_of_nat (length [Point (Fin 0) (Fin 0)])) (Fin 1)) = NaN \<and>
   taperRatio 0 (length [Point (Fin 0) (Fin 0)]) = NaN"
  by (simp add: taperRatio_def js_sub_def js_of_nat_def Let_def)

text \<open>
  C6.  From a state whose buffers are consistent, a second full refresh right after the
  first, with the points and the texture unchanged, leaves the three buffers exactly as
  the first left them.
\<close>

theorem C6_idempotent:
  assumes "consistent r"
  shows "\<exists>r1 r2.
     rope_refresh mul r = Inr r1 \<and> rope_refresh mul r1 = Inr r2 \<and>
     vertexBuffer r2 = vertexBuffer r1 \<and>
     uvBuffer r2 = uvBuffer r1 \<and>
     indexBuffer r2 = indexBuffer r1"
proof (cases "points r = None \<or> points r = Some [] \<or> tex_uvs (texture r) = None")
  case True
  then show ?thesis by (simp add: rope_refresh_noop)
next
  case False
  then obtain ps where ps: "points r = Some ps" "1 \<le> length ps"
    and ready: "tex_uvs (texture r) \<noteq> None"
    by (cases "points r") (auto simp: Suc_le_eq)
  let ?r1 = "r\<lparr>vertexBuffer := ropeVertices ps (tex_height (texture r)),
            uvBuffer := mapUvs (mul (texture r)) (ropeUvs (length ps)),
            indexBuffer := ropeIndices (length ps),
            events := events r @
              [UpdateUv (ropeUvs (length ps)), UpdateIndex (ropeIndices (length ps)),
               MultiplyUvs, UpdateVertex (ropeVertices ps (tex_height (texture r)))]\<rparr>"
  have first: "rope_refresh mul r = Inr ?r1"
    using ps ready assms by (intro rope_refresh_ready) simp_all
  have c1: "consistent ?r1"
    by (simp add: consistent_def length_ropeVertices length_mapUvs length_ropeUvs
        length_ropeIndices)
  have "rope_refresh mul ?r1 =
     Inr (?r1\<lparr>vertexBuffer := ropeVertices ps (tex_height (texture ?r1)),
            uvBuffer := mapUvs (mul (texture ?r1)) (ropeUvs (length ps)),
            indexBuffer := ropeIndices (length ps),
            events := events ?r1 @
              [UpdateUv (ropeUvs (length ps)), UpdateIndex (ropeIndices (length ps)),
               MultiplyUvs, UpdateVertex (ropeVertices ps (tex_height (texture ?r1)))]\<rparr>)"
    using ps ready c1 by (intro rope_refresh_ready) simp_all
  then show ?thesis
    unfolding first by simp
qed

theorem C6_idempotent_witness:
  "consistent rope3 \<and>
   (\<exists>r1 r2.
     rope_refresh idMul rope3 = Inr r1 \<and> rope_refresh idMul r1 = Inr r2 \<and>
     vertexBuffer r2 = vertexBuffer r1 \<and>
     uvBuffer r2 = uvBuffer r1 \<and>
     indexBuffer r2 = indexBuffer r1)"
  using consistent_rope3 C6_idempotent [OF consistent_rope3, of idMul] by blast

text \<open>
  C7, as amended.  With a ready texture and at least one point the full refresh first
  rebuilds the UV and index arrays, then signals the update of the UV buffer and of the
  index buffer, then applies the texture's UV multiplier, then recomputes the vertices and
  signals the update of the vertex buffer.  The UV data at the time of its signal is the
  data before the multiplier; the UV buffer holds the multiplied data when the full refresh
  returns.
\<close>

theorem C7_signal_before_multiplier:
  assumes "points r = Some ps" "1 \<le> length ps" "tex_uvs (texture r) \<noteq> None" "consistent r"
  shows "\<exists>r'.
     rope_refresh mul r = Inr r' \<and>
     events r' = events r @
       [UpdateUv (ropeUvs (length ps)), UpdateIndex (ropeIndices (length ps)), MultiplyUvs,
        UpdateVertex (vertexBuffer r')] \<and>
     uvBuffer r' = mapUvs (mul (texture r)) (ropeUvs (length ps)) \<and>
     indexBuffer r' = ropeIndices (length ps) \<and>
     vertexBuffer r' = ropeVertices ps (tex_height (texture r))"
proof -
  have "rope_refresh mul r =
     Inr (r\<lparr>vertexBuffer := ropeVertices ps (tex_height (texture r)),
            uvBuffer := mapUvs (mul (texture r)) (ropeUvs (length ps)),
            indexBuffer := ropeIndices (length ps),
            events := events r @
              [UpdateUv (ropeUvs (length ps)), UpdateIndex (ropeIndices (length ps)),
               MultiplyUvs, UpdateVertex (ropeVertices ps (tex_height (texture r)))]\<rparr>)"
    using assms by (intro rope_refresh_ready) simp_all
  then show ?thesis by simp
qed

theorem C7_signal_before_multiplier_witness:
  "points ropeHalf = Some points2 \<and> 1 \<le> length points2 \<and>
   tex_uvs (texture ropeHalf) \<noteq> None \<and> consistent ropeHalf \<and>
   (\<exists>r'.
     rope_refresh halfMul ropeHalf = Inr r' \<and>
     events r' = events ropeHalf @
       [UpdateUv (ropeUvs (length points2)), UpdateIndex (ropeIndices (length points2)),
        MultiplyUvs, UpdateVertex (vertexBuffer r')] \<and>
     uvBuffer r' = mapUvs (halfMul (texture ropeHalf)) (ropeUvs (length points2)) \<and>
     indexBuffer r' = ropeIndices (length points2) \<and>
     vertexBuffer r' = ropeVertices points2 (tex_height (texture ropeHalf)))"
proof -
  have h: "points ropeHalf = Some points2" "1 \<le> length points2"
    "tex_uvs (texture ropeHalf) \<noteq> None" "consistent ropeHalf"
    by (simp_all add: ropeHalf_def points2_def texReady_def consistent_def)
  show ?thesis
    using h C7_signal_before_multiplier [OF h, of halfMul] by blast
qed

text \<open>
  C7 as stated fails: with a multiplier that halves every sample, the UV data signalled is
  \<open>(0,0), (0,1), (1,0), (1,1)\<close>, the multiplier is applied after the two signals, and the
  UV buffer ends as \<open>(0,0), (0,0.5), (0.5,0), (0.5,0.5)\<close>.
\<close>

theorem C7_counterexample:
  "construct halfMul True texReady points2 = Inr ropeHalf \<and>
   events ropeHalf =
     [UpdateUv [Fin 0, Fin 0, Fin 0, Fin 1, Fin 1, Fin 0, Fin 1, Fin 1],
      UpdateIndex [0, 1, 2, 3],
      MultiplyUvs,
      UpdateVertex (vertexBuffer ropeHalf)] \<and>
   uvBuffer ropeHalf =
     [Fin 0, Fin 0, Fin 0, Fin 0.5, Fin 0.5, Fin 0, Fin 0.5, Fin 0.5] \<and>
   uvBuffer ropeHalf \<noteq> [Fin 0, Fin 0, Fin 0, Fin 1, Fin 1, Fin 0, Fin 1, Fin 1]"
  by (simp add: construct_ropeHalf) (simp add: ropeHalf_def)

text \<open>
  C8.  The per-frame hook: with \<^verbatim>\<open>autoUpdate\<close> off it only propagates the container's
  transform update, so the three buffers stay as they were; with \<^verbatim>\<open>autoUpdate\<close> on it
  runs \<open>refreshVertices\<close> first and then propagates the update.  In both cases the update
  of the container is the last call, and the UV and index buffers are untouched.  The states
  are those with a point sequence assigned.
\<close>

theorem C8_update_transform:
  "(\<not> autoUpdate r \<longrightarrow>
      updateTransform r = Inr (r\<lparr>events := events r @ [ContainerUpdateTransform]\<rparr>)) \<and>
   (autoUpdate r \<and> points r = Some ps \<longrightarrow>
      (\<exists>r'. refreshVertices r = Inr r' \<and>
         updateTransform r = Inr (r'\<lparr>events := events r' @ [ContainerUpdateTransform]\<rparr>))) \<and>
   (points r = Some ps \<longrightarrow>
      (\<exists>r'. updateTransform r = Inr r' \<and>
         events r' =
           (if autoUpdate r \<and> 1 \<le> length ps then events r @ [UpdateVertex (vertexBuffer r')]
            else events r) @ [ContainerUpdateTransform] \<and>
         (\<not> autoUpdate r \<longrightarrow> vertexBuffer r' = vertexBuffer r) \<and>
         uvBuffer r' = uvBuffer r \<and> indexBuffer r' = indexBuffer r))"
  by (cases ps) (auto simp: updateTransform_def refreshVertices_def Let_def)

theorem C8_update_transform_witness:
  "\<not> autoUpdate ropeManual \<and>
   updateTransform ropeManual =
     Inr (ropeManual\<lparr>events := events ropeManual @ [ContainerUpdateTransform]\<rparr>) \<and>
   autoUpdate rope3 \<and> points rope3 = Some points3 \<and>
   (\<exists>r'. refreshVertices rope3 = Inr r' \<and>
      updateTransform rope3 = Inr (r'\<lparr>events := events r' @ [ContainerUpdateTransform]\<rparr>)) \<and>
   (\<exists>r'. updateTransform rope3 = Inr r' \<and>
      events r' = events rope3 @ [UpdateVertex (vertexBuffer r'), ContainerUpdateTransform] \<and>
      uvBuffer r' = uvBuffer rope3 \<and> indexBuffer r' = indexBuffer rope3)"
proof -
  have a: "\<not> autoUpdate ropeManual" by (simp add: ropeManual_def)
  have b: "autoUpdate rope3" "points rope3 = Some points3" "1 \<le> length points3"
    by (simp_all add: rope3_def points3_def)
  show ?thesis
    using a b C8_update_transform [of ropeManual points2] C8_update_transform [of rope3 points3]
    by auto
qed

text \<open>
  C9, as amended.  The frames of a sprite sheet are the entries of a JSON object, so their
  names are distinct.  The loader handles them in order and stops, raising a TypeError, at
  the first entry that is marked trimmed (and has a \<^verbatim>\<open>frame\<close>) but lacks
  \<^verbatim>\<open>sourceSize\<close> or \<^verbatim>\<open>spriteSourceSize\<close>; the load of the image is then not
  started.  When there is no such entry it handles all of them, returns without error and
  starts the load of the image.  For each entry it has handled that has a \<^verbatim>\<open>frame\<close>
  rectangle, the texture cache holds one texture region under the entry's name: its source
  and crop rectangle are the frame rectangle, and its trim rectangle, present exactly when
  the entry is trimmed, has the offset of \<^verbatim>\<open>spriteSourceSize\<close> and the dimensions of
  \<^verbatim>\<open>sourceSize\<close>.  The cache is unchanged at every other name: at the name of a
  handled entry without \<^verbatim>\<open>frame\<close>, at the names of the entry that raised and of
  the entries after it, and at the names that are not in the sheet.
\<close>

theorem C9_sprite_sheet_frames:
  assumes "frames json = Some fds" "meta_image json = Some img" "distinct (map fst fds)"
  shows "\<exists>ld' cache'.
     onJSONLoaded ld (Some json) cache animCache =
       (if list_all (\<lambda>e. wellFormed (snd e)) fds then None else Some TypeError, ld', cache') \<and>
     loader_texture ld' = Some (baseUrl ld @ img) \<and>
     loader_events ld' = loader_events ld @
       (if list_all (\<lambda>e. wellFormed (snd e)) fds then [ImageLoad (baseUrl ld @ img)] else []) \<and>
     (list_all (\<lambda>e. wellFormed (snd e)) fds \<longrightarrow> processed fds = fds) \<and>
     (\<forall>pre name fd post.
        fds = pre @ (name, fd) # post \<and> list_all (\<lambda>e. wellFormed (snd e)) pre \<and>
        \<not> wellFormed fd \<longrightarrow> processed fds = pre) \<and>
     (\<forall>name fd rect.
        (name, fd) \<in> set (processed fds) \<and> frame fd = Some rect \<and> \<not> trimmed fd \<longrightarrow>
        cache' name =
          Some (CoreTexture (baseUrl ld @ img)
            (Rectangle (json_x rect) (json_y rect) (json_w rect) (json_h rect))
            (Rectangle (json_x rect) (json_y rect) (json_w rect) (json_h rect)) None)) \<and>
     (\<forall>name fd rect realSize actualSize.
        (name, fd) \<in> set (processed fds) \<and> frame fd = Some rect \<and> trimmed fd \<and>
        spriteSourceSize fd = Some realSize \<and> sourceSize fd = Some actualSize \<longrightarrow>
        cache' name =
          Some (CoreTexture (baseUrl ld @ img)
            (Rectangle (json_x rect) (json_y rect) (json_w rect) (json_h rect))
            (Rectangle (json_x rect) (json_y rect) (json_w rect) (json_h rect))
            (Some (Rectangle (json_x realSize) (json_y realSize)
               (size_w actualSize) (size_h actualSize))))) \<and>
     (\<forall>name fd. (name, fd) \<in> set (processed fds) \<and> frame fd = None \<longrightarrow>
        cache' name = cache name) \<and>
     (\<forall>name. name \<notin> fst ` set (processed fds) \<longrightarrow> cache' name = cache name)"
proof -
  let ?base = "baseUrl ld @ img"
  let ?ok = "list_all (\<lambda>e. wellFormed (snd e)) fds"
  let ?cache = "fold (cacheStep ?base) (processed fds) cache"
  let ?ld = "ld\<lparr>loader_texture := Some ?base,
                loader_events := loader_events ld @ (if ?ok then [ImageLoad ?base] else [])\<rparr>"
  have run: "onJSONLoaded ld (Some json) cache animCache =
      (if ?ok then None else Some TypeError, ?ld, ?cache)"
    using assms(1,2) by (simp add: onJSONLoaded_def Let_def frameLoop_processed)
  have tex: "loader_texture ?ld = Some ?base" by simp
  have evs: "loader_events ?ld = loader_events ld @ (if ?ok then [ImageLoad ?base] else [])"
    by simp
  have all: "?ok \<longrightarrow> processed fds = fds"
    by (simp add: processed_all)
  have split: "\<forall>pre name fd post.
        fds = pre @ (name, fd) # post \<and> list_all (\<lambda>e. wellFormed (snd e)) pre \<and>
        \<not> wellFormed fd \<longrightarrow> processed fds = pre"
    by (auto simp: processed_split)
  have d: "distinct (map fst (processed fds))"
    using assms(3) by (rule distinct_processed)
  have at: "\<And>name fd. (name, fd) \<in> set (processed fds) \<Longrightarrow>
      ?cache name = (case frameTexture ?base fd of None \<Rightarrow> cache name | Some t \<Rightarrow> Some t)"
    by (rule fold_cache_in [OF d])
  have plain: "\<forall>name fd rect.
        (name, fd) \<in> set (processed fds) \<and> frame fd = Some rect \<and> \<not> trimmed fd \<longrightarrow>
        ?cache name =
          Some (CoreTexture ?base
            (Rectangle (json_x rect) (json_y rect) (json_w rect) (json_h rect))
            (Rectangle (json_x rect) (json_y rect) (json_w rect) (json_h rect)) None)"
    by (auto simp: at frameTexture_def Let_def)
  have trim: "\<forall>name fd rect realSize actualSize.
        (name, fd) \<in> set (processed fds) \<and> frame fd = Some rect \<and> trimmed fd \<and>
        spriteSourceSize fd = Some realSize \<and> sourceSize fd = Some actualSize \<longrightarrow>
        ?cache name =
          Some (CoreTexture ?base
            (Rectangle (json_x rect) (json_y rect) (json_w rect) (json_h rect))
            (Rectangle (json_x rect) (json_y rect) (json_w rect) (json_h rect))
            (Some (Rectangle (json_x realSize) (json_y realSize)
               (size_w actualSize) (size_h actualSize))))"
    by (auto simp: at frameTexture_def Let_def)
  have none: "\<forall>name fd. (name, fd) \<in> set (processed fds) \<and> frame fd = None \<longrightarrow>
        ?cache name = cache name"
    by (auto simp: at frameTexture_def Let_def)
  have other: "\<forall>name. name \<notin> fst ` set (processed fds) \<longrightarrow> ?cache name = cache name"
    by (simp add: fold_cache_notin)
  show ?thesis
    by (rule exI [of _ ?ld], rule exI [of _ ?cache], intro conjI)
      (rule run tex evs all split plain trim none other)+
qed

theorem C9_sprite_sheet_frames_witness:
  "frames sheetTwo = Some [(''a.png'', \<lparr>frame = Some (JsonRect (Fin 0) (Fin 0) (Fin 30) (Fin 20)), trimmed = True,
           sourceSize = Some (JsonSize (Fin 32) (Fin 24)),
           spriteSourceSize = Some (JsonRect (Fin 1) (Fin 2) (Fin 30) (Fin 20))\<rparr>), (''b.png'', \<lparr>frame = Some (JsonRect (Fin 30) (Fin 0) (Fin 8) (Fin 8)), trimmed = False,
           sourceSize = None, spriteSourceSize = None\<rparr>)] \<and>
   meta_image sheetTwo = Some ''sheet.png'' \<and>
   distinct (map fst (the (frames sheetTwo))) \<and>
   list_all (\<lambda>e. wellFormed (snd e)) (the (frames sheetTwo)) \<and>
   (\<exists>ld' cache'.
      onJSONLoaded loader0 (Some sheetTwo) Map.empty (\<lambda>u. False) = (None, ld', cache') \<and>
      loader_texture ld' = Some ''img/sheet.png'' \<and>
      loader_events ld' = [ImageLoad ''img/sheet.png''] \<and>
      cache' ''a.png'' =
        Some (CoreTexture ''img/sheet.png''
          (Rectangle (Fin 0) (Fin 0) (Fin 30) (Fin 20))
          (Rectangle (Fin 0) (Fin 0) (Fin 30) (Fin 20))
          (Some (Rectangle (Fin 1) (Fin 2) (Fin 32) (Fin 24)))) \<and>
      cache' ''b.png'' =
        Some (CoreTexture ''img/sheet.png''
          (Rectangle (Fin 30) (Fin 0) (Fin 8) (Fin 8))
          (Rectangle (Fin 30) (Fin 0) (Fin 8) (Fin 8)) None) \<and>
      cache' ''c.png'' = None) \<and>
   frames sheetLate = Some [(''b.png'', \<lparr>frame = Some (JsonRect (Fin 30) (Fin 0) (Fin 8) (Fin 8)), trimmed = False,
           sourceSize = None, spriteSourceSize = None\<rparr>), (''a.png'', \<lparr>frame = Some (JsonRect (Fin 0) (Fin 0) (Fin 30) (Fin 20)), trimmed = True,
           sourceSize = Some (JsonSize (Fin 32) (Fin 24)), spriteSourceSize = None\<rparr>),
     (''c.png'', \<lparr>frame = Some (JsonRect (Fin 38) (Fin 0) (Fin 8) (Fin 8)), trimmed = False,
           sourceSize = None, spriteSourceSize = None\<rparr>)] \<and>
   meta_image sheetLate = Some ''sheet.png'' \<and>
   distinct (map fst (the (frames sheetLate))) \<and>
   list_all (\<lambda>e. wellFormed (snd e)) [(''b.png'', \<lparr>frame = Some (JsonRect (Fin 30) (Fin 0) (Fin 8) (Fin 8)), trimmed = False,
           sourceSize = None, spriteSourceSize = None\<rparr>)] \<and>
   \<not> wellFormed \<lparr>frame = Some (JsonRect (Fin 0) (Fin 0) (Fin 30) (Fin 20)), trimmed = True,
           sourceSize = Some (JsonSize (Fin 32) (Fin 24)), spriteSourceSize = None\<rparr> \<and>
   (\<exists>ld' cache'.
      onJSONLoaded loader0 (Some sheetLate) Map.empty (\<lambda>u. False) = (Some TypeError, ld', cache') \<and>
      loader_texture ld' = Some ''img/sheet.png'' \<and>
      loader_events ld' = [] \<and>
      cache' ''b.png'' =
        Some (CoreTexture ''img/sheet.png''
          (Rectangle (Fin 30) (Fin 0) (Fin 8) (Fin 8))
          (Rectangle (Fin 30) (Fin 0) (Fin 8) (Fin 8)) None) \<and>
      cache' ''a.png'' = None \<and>
      cache' ''c.png'' = None)"
proof -
  let ?a = "\<lparr>frame = Some (JsonRect (Fin 0) (Fin 0) (Fin 30) (Fin 20)), trimmed = True,
           sourceSize = Some (JsonSize (Fin 32) (Fin 24)),
           spriteSourceSize = Some (JsonRect (Fin 1) (Fin 2) (Fin 30) (Fin 20))\<rparr>"
  let ?b = "\<lparr>frame = Some (JsonRect (Fin 30) (Fin 0) (Fin 8) (Fin 8)), trimmed = False,
           sourceSize = None, spriteSourceSize = None\<rparr>"
  let ?a2 = "\<lparr>frame = Some (JsonRect (Fin 0) (Fin 0) (Fin 30) (Fin 20)), trimmed = True,
           sourceSize = Some (JsonSize (Fin 32) (Fin 24)), spriteSourceSize = None\<rparr>"
  let ?c = "\<lparr>frame = Some (JsonRect (Fin 38) (Fin 0) (Fin 8) (Fin 8)), trimmed = False,
           sourceSize = None, spriteSourceSize = None\<rparr>"
  let ?two = "[(''a.png'', ?a), (''b.png'', ?b)]"
  let ?late = "[(''b.png'', ?b), (''a.png'', ?a2), (''c.png'', ?c)]"
  have h: "frames sheetTwo = Some ?two" "meta_image sheetTwo = Some ''sheet.png''"
    "distinct (map fst ?two)"
    by (simp_all add: sheetTwo_def)
  have ok: "list_all (\<lambda>e. wellFormed (snd e)) ?two"
    by (simp add: wellFormed_def)
  have g: "frames sheetLate = Some ?late" "meta_image sheetLate = Some ''sheet.png''"
    "distinct (map fst ?late)"
    by (simp_all add: sheetLate_def)
  have pre: "list_all (\<lambda>e. wellFormed (snd e)) [(''b.png'', ?b)]" and bad: "\<not> wellFormed ?a2"
    by (simp_all add: wellFormed_def)
  have nok: "\<not> list_all (\<lambda>e. wellFormed (snd e)) ?late"
    using bad by simp
  obtain ld1 cache1 where run1: "onJSONLoaded loader0 (Some sheetTwo) Map.empty (\<lambda>u. False) =
       (if list_all (\<lambda>e. wellFormed (snd e)) ?two then None else Some TypeError, ld1, cache1)"
    and tex1: "loader_texture ld1 = Some (baseUrl loader0 @ ''sheet.png'')"
    and evs1: "loader_events ld1 = loader_events loader0 @
       (if list_all (\<lambda>e. wellFormed (snd e)) ?two then [ImageLoad (baseUrl loader0 @ ''sheet.png'')]
        else [])"
    and all1: "list_all (\<lambda>e. wellFormed (snd e)) ?two \<longrightarrow> processed ?two = ?two"
    and split1: "\<forall>pre name fd post.
        ?two = pre @ (name, fd) # post \<and> list_all (\<lambda>e. wellFormed (snd e)) pre \<and>
        \<not> wellFormed fd \<longrightarrow> processed ?two = pre"
    and plain1: "\<forall>name fd rect.
        (name, fd) \<in> set (processed ?two) \<and> frame fd = Some rect \<and> \<not> trimmed fd \<longrightarrow>
        cache1 name =
          Some (CoreTexture (baseUrl loader0 @ ''sheet.png'')
            (Rectangle (json_x rect) (json_y rect) (json_w rect) (json_h rect))
            (Rectangle (json_x rect) (json_y rect) (json_w rect) (json_h rect)) None)"
    and trim1: "\<forall>name fd rect realSize actualSize.
        (name, fd) \<in> set (processed ?two) \<and> frame fd = Some rect \<and> trimmed fd \<and>
        spriteSourceSize fd = Some realSize \<and> sourceSize fd = Some actualSize \<longrightarrow>
        cache1 name =
          Some (CoreTexture (baseUrl loader0 @ ''sheet.png'')
            (Rectangle (json_x rect) (json_y rect) (json_w rect) (json_h rect))
            (Rectangle (json_x rect) (json_y rect) (json_w rect) (json_h rect))
            (Some (Rectangle (json_x realSize) (json_y realSize)
               (size_w actualSize) (size_h actualSize))))"
    and none1: "\<forall>name fd. (name, fd) \<in> set (processed ?two) \<and> frame fd = None \<longrightarrow>
        cache1 name = Map.empty name"
    and other1: "\<forall>name. name \<notin> fst ` set (processed ?two) \<longrightarrow> cache1 name = Map.empty name"
    using C9_sprite_sheet_frames [OF h, of loader0 Map.empty "\<lambda>u. False"]
    by (elim exE conjE) (rule that; assumption)
  obtain ld2 cache2 where run2: "onJSONLoaded loader0 (Some sheetLate) Map.empty (\<lambda>u. False) =
       (if list_all (\<lambda>e. wellFormed (snd e)) ?late then None else Some TypeError, ld2, cache2)"
    and tex2: "loader_texture ld2 = Some (baseUrl loader0 @ ''sheet.png'')"
    and evs2: "loader_events ld2 = loader_events loader0 @
       (if list_all (\<lambda>e. wellFormed (snd e)) ?late then [ImageLoad (baseUrl loader0 @ ''sheet.png'')]
        else [])"
    and all2: "list_all (\<lambda>e. wellFormed (snd e)) ?late \<longrightarrow> processed ?late = ?late"
    and split2: "\<forall>pre name fd post.
        ?late = pre @ (name, fd) # post \<and> list_all (\<lambda>e. wellFormed (snd e)) pre \<and>
        \<not> wellFormed fd \<longrightarrow> processed ?late = pre"
    and plain2: "\<forall>name fd rect.
        (name, fd) \<in> set (processed ?late) \<and> frame fd = Some rect \<and> \<not> trimmed fd \<longrightarrow>
        cache2 name =
          Some (CoreTexture (baseUrl loader0 @ ''sheet.png'')
            (Rectangle (json_x rect) (json_y rect) (json_w rect) (json_h rect))
            (Rectangle (json_x rect) (json_y rect) (json_w rect) (json_h rect)) None)"
    and trim2: "\<forall>name fd rect realSize actualSize.
        (name, fd) \<in> set (processed ?late) \<and> frame fd = Some rect \<and> trimmed fd \<and>
        spriteSourceSize fd = Some realSize \<and> sourceSize fd = Some actualSize \<longrightarrow>
        cache2 name =
          Some (CoreTexture (baseUrl loader0 @ ''sheet.png'')
            (Rectangle (json_x rect) (json_y rect) (json_w rect) (json_h rect))
            (Rectangle (json_x rect) (json_y rect) (json_w rect) (json_h rect))
            (Some (Rectangle (json_x realSize) (json_y realSize)
               (size_w actualSize) (size_h actualSize))))"
    and none2: "\<forall>name fd. (name, fd) \<in> set (processed ?late) \<and> frame fd = None \<longrightarrow>
        cache2 name = Map.empty name"
    and other2: "\<forall>name. name \<notin> fst ` set (processed ?late) \<longrightarrow> cache2 name = Map.empty name"
    using C9_sprite_sheet_frames [OF g, of loader0 Map.empty "\<lambda>u. False"]
    by (elim exE conjE) (rule that; assumption)
  have p1: "processed ?two = ?two" using all1 ok by (rule mp)
  have a: "cache1 ''a.png'' =
        Some (CoreTexture ''img/sheet.png''
          (Rectangle (Fin 0) (Fin 0) (Fin 30) (Fin 20))
          (Rectangle (Fin 0) (Fin 0) (Fin 30) (Fin 20))
          (Some (Rectangle (Fin 1) (Fin 2) (Fin 32) (Fin 24))))"
    using trim1 [rule_format, of "''a.png''" ?a "JsonRect (Fin 0) (Fin 0) (Fin 30) (Fin 20)"
        "JsonRect (Fin 1) (Fin 2) (Fin 30) (Fin 20)" "JsonSize (Fin 32) (Fin 24)"]
    unfolding p1 by (simp add: loader0_def)
  have b: "cache1 ''b.png'' =
        Some (CoreTexture ''img/sheet.png''
          (Rectangle (Fin 30) (Fin 0) (Fin 8) (Fin 8))
          (Rectangle (Fin 30) (Fin 0) (Fin 8) (Fin 8)) None)"
    using plain1 [rule_format, of "''b.png''" ?b "JsonRect (Fin 30) (Fin 0) (Fin 8) (Fin 8)"]
    unfolding p1 by (simp add: loader0_def)
  have c: "cache1 ''c.png'' = None"
    using other1 [rule_format, of "''c.png''"] unfolding p1 by simp
  have first: "\<exists>ld' cache'.
      onJSONLoaded loader0 (Some sheetTwo) Map.empty (\<lambda>u. False) = (None, ld', cache') \<and>
      loader_texture ld' = Some ''img/sheet.png'' \<and>
      loader_events ld' = [ImageLoad ''img/sheet.png''] \<and>
      cache' ''a.png'' =
        Some (CoreTexture ''img/sheet.png''
          (Rectangle (Fin 0) (Fin 0) (Fin 30) (Fin 20))
          (Rectangle (Fin 0) (Fin 0) (Fin 30) (Fin 20))
          (Some (Rectangle (Fin 1) (Fin 2) (Fin 32) (Fin 24)))) \<and>
      cache' ''b.png'' =
        Some (CoreTexture ''img/sheet.png''
          (Rectangle (Fin 30) (Fin 0) (Fin 8) (Fin 8))
          (Rectangle (Fin 30) (Fin 0) (Fin 8) (Fin 8)) None) \<and>
      cache' ''c.png'' = None"
    using run1 tex1 evs1 ok a b c
    by (intro exI [of _ ld1] exI [of _ cache1]) (simp add: loader0_def)
  have p2: "processed ?late = [(''b.png'', ?b)]"
    using split2 [rule_format, of "[(''b.png'', ?b)]" "''a.png''" ?a2 "[(''c.png'', ?c)]"] pre bad
    by simp
  have b2: "cache2 ''b.png'' =
        Some (CoreTexture ''img/sheet.png''
          (Rectangle (Fin 30) (Fin 0) (Fin 8) (Fin 8))
          (Rectangle (Fin 30) (Fin 0) (Fin 8) (Fin 8)) None)"
    using plain2 [rule_format, of "''b.png''" ?b "JsonRect (Fin 30) (Fin 0) (Fin 8) (Fin 8)"]
    unfolding p2 by (simp add: loader0_def)
  have a2: "cache2 ''a.png'' = None"
    using other2 [rule_format, of "''a.png''"] unfolding p2 by simp
  have c2: "cache2 ''c.png'' = None"
    using other2 [rule_format, of "''c.png''"] unfolding p2 by simp
  have second: "\<exists>ld' cache'.
      onJSONLoaded loader0 (Some sheetLate) Map.empty (\<lambda>u. False) = (Some TypeError, ld', cache') \<and>
      loader_texture ld' = Some ''img/sheet.png'' \<and>
      loader_events ld' = [] \<and>
      cache' ''b.png'' =
        Some (CoreTexture ''img/sheet.png''
          (Rectangle (Fin 30) (Fin 0) (Fin 8) (Fin 8))
          (Rectangle (Fin 30) (Fin 0) (Fin 8) (Fin 8)) None) \<and>
      cache' ''a.png'' = None \<and>
      cache' ''c.png'' = None"
    using run2 tex2 evs2 nok b2 a2 c2
    by (intro exI [of _ ld2] exI [of _ cache2]) (simp add: loader0_def)
  have d1: "distinct (map fst (the (frames sheetTwo)))"
    and o1: "list_all (\<lambda>e. wellFormed (snd e)) (the (frames sheetTwo))"
    and d2: "distinct (map fst (the (frames sheetLate)))"
    using h(3) ok g(3) by (simp_all add: h(1) g(1))
  show ?thesis
    by (intro conjI) (rule h(1,2) d1 o1 first g(1,2) d2 pre bad second)+
qed

text \<open>
  C9 as stated fails for a sheet whose first entry is marked trimmed and carries neither
  \<^verbatim>\<open>sourceSize\<close> nor \<^verbatim>\<open>spriteSourceSize\<close>, both optional in a frame
  descriptor: lines 150 to 152 raise a TypeError on \<^verbatim>\<open>realSize.x\<close>, no texture region
  is stored for this entry nor for the untrimmed entry after it, and the load of the image
  is not started.
\<close>

theorem C9_counterexample:
  "frames sheetBroken =
     Some [(''a.png'',
          \<lparr>frame = Some (JsonRect (Fin 0) (Fin 0) (Fin 30) (Fin 20)), trimmed = True,
           sourceSize = None, spriteSourceSize = None\<rparr>),
         (''b.png'', \<lparr>frame = Some (JsonRect (Fin 30) (Fin 0) (Fin 8) (Fin 8)), trimmed = False,
           sourceSize = None, spriteSourceSize = None\<rparr>)] \<and>
   onJSONLoaded loader0 (Some sheetBroken) Map.empty (\<lambda>u. False) =
     (Some TypeError, loader0\<lparr>loader_texture := Some ''img/sheet.png''\<rparr>, Map.empty) \<and>
   (Map.empty :: texture_cache) ''a.png'' = None \<and>
   (Map.empty :: texture_cache) ''b.png'' = None \<and>
   loader_events (loader0\<lparr>loader_texture := Some ''img/sheet.png''\<rparr>) = []"
  by (simp add: onJSONLoaded_def sheetBroken_def loader0_def Let_def)

text \<open>
  C10.  \<open>refreshVertices\<close> never raises on an assigned point sequence and gives every
  point its four vertex values.  At a point whose direction vector (next point minus last
  point) is zero, the perpendicular has length 0, the division by it yields NaN, and all
  four values of the point are NaN.  The direction is zero wherever the next and the last point
  coincide with finite coordinates; the four values are NaN at every point whose next and
  last point coincide, and for the only point of a sequence of length 1.
\<close>

theorem C10_zero_direction_nan:
  assumes "points r = Some ps" "length ps * 4 \<le> length (vertexBuffer r)"
  shows "\<exists>r'. refreshVertices r = Inr r' \<and>
     (\<forall>i < length ps. \<forall>c < 4.
        vertexBuffer r' ! (i * 4 + c) =
          vertexQuad (tex_height (texture r)) (lastPointAt ps i) (ps ! i) (nextPointAt ps i) ! c) \<and>
     (\<forall>i < length ps.
        js_sub (point_x (nextPointAt ps i)) (point_x (lastPointAt ps i)) = Fin 0 \<and>
        js_sub (point_y (nextPointAt ps i)) (point_y (lastPointAt ps i)) = Fin 0 \<longrightarrow>
        perpLengthOf (lastPointAt ps i) (nextPointAt ps i) = Fin 0 \<and>
        (\<forall>c < 4. vertexBuffer r' ! (i * 4 + c) = NaN)) \<and>
     (\<forall>i < length ps.
        nextPointAt ps i = lastPointAt ps i \<longrightarrow>
        (\<forall>c < 4. vertexBuffer r' ! (i * 4 + c) = NaN)) \<and>
     (\<forall>i < length ps. \<forall>a b.
        nextPointAt ps i = lastPointAt ps i \<and> lastPointAt ps i = Point (Fin a) (Fin b) \<longrightarrow>
        js_sub (point_x (nextPointAt ps i)) (point_x (lastPointAt ps i)) = Fin 0 \<and>
        js_sub (point_y (nextPointAt ps i)) (point_y (lastPointAt ps i)) = Fin 0) \<and>
     (length ps = 1 \<longrightarrow>
        nextPointAt ps 0 = lastPointAt ps 0 \<and>
        (\<forall>c < 4. vertexBuffer r' ! c = NaN) \<and>
        (length (vertexBuffer r) = 4 \<longrightarrow> vertexBuffer r' = [NaN, NaN, NaN, NaN]))"
proof -
  let ?h = "tex_height (texture r)"
  obtain r' where r': "refreshVertices r = Inr r'"
    and len: "length (vertexBuffer r') = length (vertexBuffer r)"
    and nth: "\<forall>i < length ps. \<forall>c < 4.
        vertexBuffer r' ! (i * 4 + c) =
          vertexQuad ?h (lastPointAt ps i) (ps ! i) (nextPointAt ps i) ! c"
    using refreshVertices_nth [OF assms] by blast
  have zero: "\<forall>i < length ps.
        js_sub (point_x (nextPointAt ps i)) (point_x (lastPointAt ps i)) = Fin 0 \<and>
        js_sub (point_y (nextPointAt ps i)) (point_y (lastPointAt ps i)) = Fin 0 \<longrightarrow>
        perpLengthOf (lastPointAt ps i) (nextPointAt ps i) = Fin 0 \<and>
        (\<forall>c < 4. vertexBuffer r' ! (i * 4 + c) = NaN)"
    using nth by (simp add: perpLengthOf_zero perpOf_zero vertexQuad_nan nth_four_NaN)
  have same: "\<forall>i < length ps.
        nextPointAt ps i = lastPointAt ps i \<longrightarrow>
        (\<forall>c < 4. vertexBuffer r' ! (i * 4 + c) = NaN)"
    using nth by (simp add: perpOf_same vertexQuad_nan nth_four_NaN)
  have coincide: "\<forall>i < length ps. \<forall>a b.
        nextPointAt ps i = lastPointAt ps i \<and> lastPointAt ps i = Point (Fin a) (Fin b) \<longrightarrow>
        js_sub (point_x (nextPointAt ps i)) (point_x (lastPointAt ps i)) = Fin 0 \<and>
        js_sub (point_y (nextPointAt ps i)) (point_y (lastPointAt ps i)) = Fin 0"
    by (simp add: js_sub_def)
  have one: "length ps = 1 \<longrightarrow>
        nextPointAt ps 0 = lastPointAt ps 0 \<and>
        (\<forall>c < 4. vertexBuffer r' ! c = NaN) \<and>
        (length (vertexBuffer r) = 4 \<longrightarrow> vertexBuffer r' = [NaN, NaN, NaN, NaN])"
  proof
    assume l: "length ps = 1"
    have eq: "nextPointAt ps 0 = lastPointAt ps 0"
      using l by (simp add: nextPointAt_def lastPointAt_def)
    have all: "\<forall>c < 4. vertexBuffer r' ! c = NaN"
      using same l eq by auto
    have "length (vertexBuffer r) = 4 \<longrightarrow> vertexBuffer r' = [NaN, NaN, NaN, NaN]"
    proof
      assume "length (vertexBuffer r) = 4"
      then have "length (vertexBuffer r') = 4" using len by simp
      then show "vertexBuffer r' = [NaN, NaN, NaN, NaN]"
        using all by (intro nth_equalityI) (simp_all add: nth_four_NaN)
    qed
    then show "nextPointAt ps 0 = lastPointAt ps 0 \<and>
        (\<forall>c < 4. vertexBuffer r' ! c = NaN) \<and>
        (length (vertexBuffer r) = 4 \<longrightarrow> vertexBuffer r' = [NaN, NaN, NaN, NaN])"
      using eq all by simp
  qed
  show ?thesis
    by (rule exI [of _ r'], intro conjI) (rule r' nth zero same coincide one)+
qed

theorem C10_zero_direction_nan_witness:
  "points ropeDup = Some pointsDup \<and>
   length pointsDup * 4 \<le> length (vertexBuffer ropeDup) \<and>
   nextPointAt pointsDup 0 = lastPointAt pointsDup 0 \<and>
   refreshVertices ropeDup =
     Inr (ropeDup\<lparr>vertexBuffer :=
            [NaN, NaN, NaN, NaN, Fin 0, Fin (- 5), Fin 0, Fin 5, Fin 10, Fin (- 5), Fin 10, Fin 5],
          events :=
            [UpdateVertex
              [NaN, NaN, NaN, NaN, Fin 0, Fin (- 5), Fin 0, Fin 5,
               Fin 10, Fin (- 5), Fin 10, Fin 5]]\<rparr>) \<and>
   (\<exists>r'. refreshVertices ropeDup = Inr r' \<and>
      (\<forall>c < 4. vertexBuffer r' ! (0 * 4 + c) = NaN))"
proof -
  have h: "points ropeDup = Some pointsDup"
    "length pointsDup * 4 \<le> length (vertexBuffer ropeDup)"
    by (simp_all add: ropeDup_def pointsDup_def)
  have e: "nextPointAt pointsDup 0 = lastPointAt pointsDup 0" "0 < length pointsDup"
    by (simp_all add: nextPointAt_def lastPointAt_def pointsDup_def)
  from C10_zero_direction_nan [OF h]
  obtain r' where r': "refreshVertices ropeDup = Inr r'"
    and same: "\<forall>i < length pointsDup.
        nextPointAt pointsDup i = lastPointAt pointsDup i \<longrightarrow>
        (\<forall>c < 4. vertexBuffer r' ! (i * 4 + c) = NaN)"
    by (elim exE conjE) (rule that; assumption)
  have "\<forall>c < 4. vertexBuffer r' ! (0 * 4 + c) = NaN"
    using same e by (elim allE [of _ 0]) simp
  then have "\<exists>r'. refreshVertices ropeDup = Inr r' \<and>
      (\<forall>c < 4. vertexBuffer r' ! (0 * 4 + c) = NaN)"
    using r' by (intro exI [of _ r'] conjI)
  then show ?thesis
    using h e(1) refreshVertices_ropeDup by (intro conjI)
qed

end
